theory Spec2Isabelle
  imports Complex_Main
begin

section \<open>JavaScript values\<close>

text \<open>
  A JavaScript string is a sequence of UTF-16 code units; a code unit is a natural number
  below 65536. The value of an HTTP header is a string whose code units are below 256.
  A buffer is a list of bytes (natural numbers below 256).
\<close>

type_synonym jsstring = "nat list"

abbreviation ord :: "char \<Rightarrow> nat" where
  "ord \<equiv> of_char"

abbreviation js :: "string \<Rightarrow> jsstring" where
  "js s \<equiv> map ord s"

text \<open>
  The values that \<open>JSON.parse\<close> can build, and \<open>undefined\<close>. A number is kept as the exact
  rational value of its literal. An object is the list of its members in source order; a
  later member with the same key overrides an earlier one.
\<close>

datatype jsval =
    JUndefined
  | JNull
  | JBool bool
  | JNum rat
  | JStr jsstring
  | JArr "jsval list"
  | JObj "(jsstring \<times> jsval) list"

datatype error = SyntaxError | TypeError | StreamError

text \<open>Sequencing of computations that may throw: the first error ends the computation.\<close>

fun and_then :: "error + 'a \<Rightarrow> ('a \<Rightarrow> error + 'b) \<Rightarrow> error + 'b" where
  "and_then (Inl e) f = Inl e"
| "and_then (Inr x) f = f x"

section \<open>Buffer.from(tok, 'base64')\<close>

text \<open>
  The decoder of the platform reads the low byte of each code unit. It accepts the standard
  and the URL-safe alphabet, skips every character outside them, and stops at the first
  \<open>=\<close>. Four characters give three bytes; a final group of three gives two bytes, of two
  gives one byte, and a single left-over character gives none. It never throws on a string.
\<close>

definition unbase64 :: "nat \<Rightarrow> nat option" where
  "unbase64 c =
     (if ord CHR ''A'' \<le> c \<and> c \<le> ord CHR ''Z'' then Some (c - 65)
      else if ord CHR ''a'' \<le> c \<and> c \<le> ord CHR ''z'' then Some (c - 71)
      else if ord CHR ''0'' \<le> c \<and> c \<le> ord CHR ''9'' then Some (c + 4)
      else if c = ord CHR ''+'' \<or> c = ord CHR ''-'' then Some 62
      else if c = ord CHR ''/'' \<or> c = ord CHR ''_'' then Some 63
      else None)"

fun base64_groups :: "nat list \<Rightarrow> nat list" where
  "base64_groups (a # b # c # d # rest) =
     (a * 4 + b div 16) # ((b mod 16) * 16 + c div 4) # ((c mod 4) * 64 + d) # base64_groups rest"
| "base64_groups [a, b, c] = [a * 4 + b div 16, (b mod 16) * 16 + c div 4]"
| "base64_groups [a, b] = [a * 4 + b div 16]"
| "base64_groups _ = []"

definition Buffer_from_base64 :: "jsstring \<Rightarrow> nat list" where
  "Buffer_from_base64 tok =
     base64_groups (List.map_filter unbase64
       (takeWhile (\<lambda>c. c \<noteq> ord CHR ''='') (map (\<lambda>c. c mod 256) tok)))"

section \<open>buffer.toString()\<close>

text \<open>
  The bytes are decoded as UTF-8. An ill-formed sequence gives the replacement character
  U+FFFD, and the byte that ended it is looked at again as the start of a new sequence.
  A code point above U+FFFF becomes a surrogate pair.
\<close>

datatype utf8_state =
    Start
  | Pending nat nat nat nat

definition utf8_lead :: "nat \<Rightarrow> nat list \<times> utf8_state" where
  "utf8_lead b =
     (if b \<le> 0x7F then ([b], Start)
      else if 0xC2 \<le> b \<and> b \<le> 0xDF then ([], Pending 1 (b mod 32) 0x80 0xBF)
      else if 0xE0 \<le> b \<and> b \<le> 0xEF then
        ([], Pending 2 (b mod 16) (if b = 0xE0 then 0xA0 else 0x80) (if b = 0xED then 0x9F else 0xBF))
      else if 0xF0 \<le> b \<and> b \<le> 0xF4 then
        ([], Pending 3 (b mod 8) (if b = 0xF0 then 0x90 else 0x80) (if b = 0xF4 then 0x8F else 0xBF))
      else ([0xFFFD], Start))"

fun utf8_decode :: "utf8_state \<Rightarrow> nat list \<Rightarrow> nat list" where
  "utf8_decode Start [] = []"
| "utf8_decode (Pending n cp lo hi) [] = [0xFFFD]"
| "utf8_decode Start (b # bs) = fst (utf8_lead b) @ utf8_decode (snd (utf8_lead b)) bs"
| "utf8_decode (Pending n cp lo hi) (b # bs) =
     (if lo \<le> b \<and> b \<le> hi then
        (if n = 1 then (cp * 64 + b mod 64) # utf8_decode Start bs
         else utf8_decode (Pending (n - 1) (cp * 64 + b mod 64) 0x80 0xBF) bs)
      else 0xFFFD # fst (utf8_lead b) @ utf8_decode (snd (utf8_lead b)) bs)"

definition utf16_units :: "nat \<Rightarrow> jsstring" where
  "utf16_units cp =
     (if cp < 0x10000 then [cp]
      else [0xD800 + (cp - 0x10000) div 0x400, 0xDC00 + (cp - 0x10000) mod 0x400])"

definition Buffer_toString :: "nat list \<Rightarrow> jsstring" where
  "Buffer_toString bytes = concat (map utf16_units (utf8_decode Start bytes))"

section \<open>JSON.parse\<close>

subsection \<open>Tokens\<close>

datatype token =
    LBrace | RBrace | LBracket | RBracket | Comma | Colon
  | Scalar jsval

definition is_ws :: "nat \<Rightarrow> bool" where
  "is_ws c \<longleftrightarrow> c = 9 \<or> c = 10 \<or> c = 13 \<or> c = 32"

definition is_digit :: "nat \<Rightarrow> bool" where
  "is_digit c \<longleftrightarrow> ord CHR ''0'' \<le> c \<and> c \<le> ord CHR ''9''"

definition hex_value :: "nat \<Rightarrow> nat option" where
  "hex_value c =
     (if ord CHR ''0'' \<le> c \<and> c \<le> ord CHR ''9'' then Some (c - 48)
      else if ord CHR ''a'' \<le> c \<and> c \<le> ord CHR ''f'' then Some (c - 87)
      else if ord CHR ''A'' \<le> c \<and> c \<le> ord CHR ''F'' then Some (c - 55)
      else None)"

definition unescape :: "nat \<Rightarrow> nat option" where
  "unescape e =
     (if e = ord CHR ''\"'' then Some 34
      else if e = 92 then Some 92
      else if e = ord CHR ''/'' then Some 47
      else if e = ord CHR ''b'' then Some 8
      else if e = ord CHR ''f'' then Some 12
      else if e = ord CHR ''n'' then Some 10
      else if e = ord CHR ''r'' then Some 13
      else if e = ord CHR ''t'' then Some 9
      else None)"

definition prepend :: "nat \<Rightarrow> (jsstring \<times> jsstring) option \<Rightarrow> (jsstring \<times> jsstring) option" where
  "prepend c r = (case r of None \<Rightarrow> None | Some (s, rest) \<Rightarrow> Some (c # s, rest))"

text \<open>
  The characters of a string literal after its opening quote: the contents and the input
  that follows the closing quote. A control character, an unknown escape or a missing
  closing quote is an error.
\<close>

fun lex_string :: "jsstring \<Rightarrow> (jsstring \<times> jsstring) option" where
  "lex_string [] = None"
| "lex_string (c # cs) =
     (if c = 34 then Some ([], cs)
      else if c = 92 then
        (case cs of
           [] \<Rightarrow> None
         | e # es \<Rightarrow>
             if e = ord CHR ''u'' then
               (case es of
                  h1 # h2 # h3 # h4 # rest \<Rightarrow>
                    (case (hex_value h1, hex_value h2, hex_value h3, hex_value h4) of
                       (Some a, Some b, Some c, Some d) \<Rightarrow>
                         prepend (a * 4096 + b * 256 + c * 16 + d) (lex_string rest)
                     | _ \<Rightarrow> None)
                | _ \<Rightarrow> None)
             else
               (case unescape e of
                  None \<Rightarrow> None
                | Some u \<Rightarrow> prepend u (lex_string es)))
      else if c < 32 then None
      else prepend c (lex_string cs))"

definition digits_value :: "nat list \<Rightarrow> nat" where
  "digits_value ds = foldl (\<lambda>a d. 10 * a + (d - 48)) 0 ds"

definition scale10 :: "rat \<Rightarrow> int \<Rightarrow> rat" where
  "scale10 m e = (if 0 \<le> e then m * 10 ^ nat e else m / 10 ^ nat (- e))"

text \<open>The optional fraction of a number: its digits and the input after them.\<close>

definition lex_fraction :: "jsstring \<Rightarrow> (nat list \<times> jsstring) option" where
  "lex_fraction s =
     (case s of
        c # cs \<Rightarrow>
          if c = ord CHR ''.'' then
            (if takeWhile is_digit cs = [] then None
             else Some (takeWhile is_digit cs, dropWhile is_digit cs))
          else Some ([], s)
      | [] \<Rightarrow> Some ([], s))"

text \<open>The optional exponent of a number: its value and the input after it.\<close>

definition lex_exponent :: "jsstring \<Rightarrow> (int \<times> jsstring) option" where
  "lex_exponent s =
     (case s of
        c # cs \<Rightarrow>
          if c = ord CHR ''e'' \<or> c = ord CHR ''E'' then
            (let neg = (cs \<noteq> [] \<and> hd cs = ord CHR ''-'');
                 ds = (if cs \<noteq> [] \<and> (hd cs = ord CHR ''-'' \<or> hd cs = ord CHR ''+'') then tl cs else cs)
             in if takeWhile is_digit ds = [] then None
                else Some ((if neg then - 1 else 1) * int (digits_value (takeWhile is_digit ds)),
                           dropWhile is_digit ds))
          else Some (0, s)
      | [] \<Rightarrow> Some (0, s))"

definition lex_number :: "jsstring \<Rightarrow> (rat \<times> jsstring) option" where
  "lex_number s =
     (let neg = (s \<noteq> [] \<and> hd s = ord CHR ''-'');
          s1 = (if neg then tl s else s);
          ip = takeWhile is_digit s1
      in if ip = [] \<or> (hd ip = ord CHR ''0'' \<and> 1 < length ip) then None
         else
           (case lex_fraction (dropWhile is_digit s1) of
              None \<Rightarrow> None
            | Some (fp, s2) \<Rightarrow>
                (case lex_exponent s2 of
                   None \<Rightarrow> None
                 | Some (e, s3) \<Rightarrow>
                     Some (scale10 ((if neg then - 1 else 1) * of_nat (digits_value (ip @ fp)))
                             (e - int (length fp)), s3))))"

definition emit :: "token \<Rightarrow> token list option \<Rightarrow> token list option" where
  "emit t r = map_option ((#) t) r"

text \<open>
  The tokens of a JSON text. The literals \<open>true\<close>, \<open>false\<close> and \<open>null\<close>, strings and
  numbers are scalar tokens; any other character outside white space is an error.
\<close>

lemma lex_string_shorter: "lex_string cs = Some (s, rest) \<Longrightarrow> length rest \<le> length cs"
proof (induction cs arbitrary: s rule: lex_string.induct)
  case 1
  then show ?case by simp
next
  case (2 c cs)
  then show ?case
    by (auto simp: prepend_def split: if_splits list.splits option.splits prod.splits)
      fastforce+
qed

lemma lex_fraction_shorter: "lex_fraction s = Some (fp, rest) \<Longrightarrow> length rest \<le> length s"
  by (auto simp: lex_fraction_def le_SucI length_dropWhile_le split: list.splits if_splits)

lemma lex_exponent_shorter: "lex_exponent s = Some (e, rest) \<Longrightarrow> length rest \<le> length s"
  by (auto simp: lex_exponent_def Let_def le_SucI length_dropWhile_le
      intro: order_trans [OF length_dropWhile_le] split: list.splits if_splits)

lemma dropWhile_shorter: "takeWhile P xs \<noteq> [] \<Longrightarrow> length (dropWhile P xs) < length xs"
  by (induction xs) (auto simp: less_Suc_eq_le length_dropWhile_le split: if_splits)

lemma lex_number_shorter: "lex_number s = Some (r, rest) \<Longrightarrow> length rest < length s"
proof -
  assume a: "lex_number s = Some (r, rest)"
  define s1 where "s1 = (if s \<noteq> [] \<and> hd s = ord CHR ''-'' then tl s else s)"
  have s1: "length s1 \<le> length s" by (simp add: s1_def)
  from a have ne: "takeWhile is_digit s1 \<noteq> []"
    by (auto simp: lex_number_def Let_def s1_def split: if_splits)
  from a obtain fp s2 e where f: "lex_fraction (dropWhile is_digit s1) = Some (fp, s2)"
    and x: "lex_exponent s2 = Some (e, rest)"
    by (auto simp: lex_number_def Let_def s1_def split: if_splits option.splits prod.splits)
  have "length rest \<le> length s2" using x by (rule lex_exponent_shorter)
  also have "\<dots> \<le> length (dropWhile is_digit s1)" using f by (rule lex_fraction_shorter)
  also have "\<dots> < length s1" using ne by (rule dropWhile_shorter)
  finally show ?thesis using s1 by simp
qed

function lex :: "jsstring \<Rightarrow> token list option" where
  "lex [] = Some []"
| "lex (c # cs) =
     (if is_ws c then lex cs
      else if c = ord CHR ''{'' then emit LBrace (lex cs)
      else if c = ord CHR ''}'' then emit RBrace (lex cs)
      else if c = ord CHR ''['' then emit LBracket (lex cs)
      else if c = ord CHR '']'' then emit RBracket (lex cs)
      else if c = ord CHR '','' then emit Comma (lex cs)
      else if c = ord CHR '':'' then emit Colon (lex cs)
      else if c = 34 then
        (case lex_string cs of
           None \<Rightarrow> None
         | Some (s, rest) \<Rightarrow> emit (Scalar (JStr s)) (lex rest))
      else if c = ord CHR ''-'' \<or> is_digit c then
        (case lex_number (c # cs) of
           None \<Rightarrow> None
         | Some (r, rest) \<Rightarrow> emit (Scalar (JNum r)) (lex rest))
      else if take 4 (c # cs) = js ''true'' then emit (Scalar (JBool True)) (lex (drop 3 cs))
      else if take 5 (c # cs) = js ''false'' then emit (Scalar (JBool False)) (lex (drop 4 cs))
      else if take 4 (c # cs) = js ''null'' then emit (Scalar JNull) (lex (drop 3 cs))
      else None)"
  by pat_completeness auto
termination
proof (relation "measure length")
  show "wf (measure length)" by simp
qed (auto simp: less_Suc_eq_le dest: lex_string_shorter lex_number_shorter)

subsection \<open>Values\<close>

text \<open>
  The parser reads the tokens from left to right with a stack of the arrays and objects
  that are still open. \<open>InArray\<close> and \<open>InObject\<close> hold what has been read of them, latest
  first; \<open>InMember\<close> is an object whose next value belongs to the given key.
\<close>

datatype frame =
    InArray "jsval list"
  | InObject "(jsstring \<times> jsval) list"
  | InMember "(jsstring \<times> jsval) list" jsstring

datatype expect =
    Value bool
  | Key bool
  | KeyColon
  | Separator
  | Finished jsval

text \<open>A complete value goes to the innermost open array or object, or ends the text.\<close>

fun deliver :: "jsval \<Rightarrow> frame list \<Rightarrow> (expect \<times> frame list) option" where
  "deliver v [] = Some (Finished v, [])"
| "deliver v (InArray es # st) = Some (Separator, InArray (v # es) # st)"
| "deliver v (InMember ms k # st) = Some (Separator, InObject ((k, v) # ms) # st)"
| "deliver v (InObject ms # st) = None"

text \<open>
  One token. \<open>Value True\<close> is the state right after \<open>[\<close>, where \<open>]\<close> may close the empty
  array; \<open>Key True\<close> is the state right after \<open>{\<close>.
\<close>

fun parse_step :: "expect \<Rightarrow> frame list \<Rightarrow> token \<Rightarrow> (expect \<times> frame list) option" where
  "parse_step (Value c) st (Scalar v) = deliver v st"
| "parse_step (Value c) st LBracket = Some (Value True, InArray [] # st)"
| "parse_step (Value c) st LBrace = Some (Key True, InObject [] # st)"
| "parse_step (Value True) (InArray [] # st) RBracket = deliver (JArr []) st"
| "parse_step (Key c) (InObject ms # st) (Scalar (JStr k)) = Some (KeyColon, InMember ms k # st)"
| "parse_step (Key True) (InObject [] # st) RBrace = deliver (JObj []) st"
| "parse_step KeyColon st Colon = Some (Value False, st)"
| "parse_step Separator (InArray es # st) Comma = Some (Value False, InArray es # st)"
| "parse_step Separator (InArray es # st) RBracket = deliver (JArr (rev es)) st"
| "parse_step Separator (InObject ms # st) Comma = Some (Key False, InObject ms # st)"
| "parse_step Separator (InObject ms # st) RBrace = deliver (JObj (rev ms)) st"
| "parse_step _ _ _ = None"

fun parse_tokens :: "expect \<Rightarrow> frame list \<Rightarrow> token list \<Rightarrow> jsval option" where
  "parse_tokens (Finished v) [] [] = Some v"
| "parse_tokens _ _ [] = None"
| "parse_tokens ex st (t # ts) =
     (case parse_step ex st t of
        None \<Rightarrow> None
      | Some (ex', st') \<Rightarrow> parse_tokens ex' st' ts)"

definition JSON_parse :: "jsstring \<Rightarrow> error + jsval" where
  "JSON_parse text =
     (case lex text of
        None \<Rightarrow> Inl SyntaxError
      | Some ts \<Rightarrow>
          (case parse_tokens (Value False) [] ts of
             None \<Rightarrow> Inl SyntaxError
           | Some v \<Rightarrow> Inr v))"

section \<open>Operations on values\<close>

text \<open>
  What the platform leaves open is a parameter of the model: the collation used by
  \<open>localeCompare\<close>, the text of a number, and what comes of the request that is sent to
  the introspection endpoint with a given body. The response ends with a body, or the
  response emits \<open>error\<close>, or the request itself emits \<open>error\<close> (a refused connection,
  an unknown host), or nothing comes at all.
\<close>

datatype http_events =
    Response_end jsstring
  | Response_error
  | Request_error
  | No_event

record runtime =
  localeCompare :: "jsstring \<Rightarrow> jsstring \<Rightarrow> int"
  Number_toString :: "rat \<Rightarrow> jsstring"
  https_request :: "jsstring \<Rightarrow> http_events"

text \<open>
  The promise of an asynchronous call is fulfilled with a value, rejected with an error, or
  stays pending for ever; or the process ends before the promise is settled. \<open>await\<close>
  goes on with the value of a fulfilled promise and throws the error of a rejected one; a
  function that throws is a rejected promise of its caller.
\<close>

datatype 'a promise = Fulfilled 'a | Rejected error | Unsettled | ProcessEnded

fun await :: "'a promise \<Rightarrow> ('a \<Rightarrow> 'b promise) \<Rightarrow> 'b promise" where
  "await (Fulfilled x) f = f x"
| "await (Rejected e) f = Rejected e"
| "await Unsettled f = Unsettled"
| "await ProcessEnded f = ProcessEnded"

fun settled :: "error + 'a \<Rightarrow> 'a promise" where
  "settled (Inr x) = Fulfilled x"
| "settled (Inl e) = Rejected e"

text \<open>
  Truthiness. A number is falsy when it is zero as a double, which a literal is when its
  magnitude is at most \<open>2\<^sup>-\<^sup>1\<^sup>0\<^sup>7\<^sup>5\<close>.
\<close>

fun ToBoolean :: "jsval \<Rightarrow> bool" where
  "ToBoolean JUndefined = False"
| "ToBoolean JNull = False"
| "ToBoolean (JBool b) = b"
| "ToBoolean (JNum r) = (1 / 2 ^ 1075 < \<bar>r\<bar>)"
| "ToBoolean (JStr s) = (s \<noteq> [])"
| "ToBoolean (JArr vs) = True"
| "ToBoolean (JObj ms) = True"

text \<open>
  The properties that the program reads. None of them is defined by a built-in prototype,
  so a read gives the member of an object if there is one and \<open>undefined\<close> otherwise;
  reading a property of \<open>undefined\<close> or \<open>null\<close> throws.
\<close>

datatype property = Prop_subject | Prop_active | Prop_Username

fun property_key :: "property \<Rightarrow> jsstring" where
  "property_key Prop_subject = js ''subject''"
| "property_key Prop_active = js ''active''"
| "property_key Prop_Username = js ''Username''"

fun Get :: "jsval \<Rightarrow> property \<Rightarrow> error + jsval" where
  "Get JUndefined p = Inl TypeError"
| "Get JNull p = Inl TypeError"
| "Get (JObj ms) p =
     (case map_of (rev ms) (property_key p) of
        None \<Rightarrow> Inr JUndefined
      | Some v \<Rightarrow> Inr v)"
| "Get v p = Inr JUndefined"

text \<open>
  Conversion to a string. An array is the texts of its elements joined by commas, with
  nothing for \<open>null\<close> and \<open>undefined\<close>. An object is \<open>[object Object]\<close>, unless it has a
  member \<open>toString\<close>, which hides the inherited method and cannot be called: then the
  conversion throws.
\<close>

fun ToString :: "runtime \<Rightarrow> jsval \<Rightarrow> error + jsstring"
  and Array_join :: "runtime \<Rightarrow> jsval list \<Rightarrow> error + jsstring" where
  "ToString rt JUndefined = Inr (js ''undefined'')"
| "ToString rt JNull = Inr (js ''null'')"
| "ToString rt (JBool b) = Inr (if b then js ''true'' else js ''false'')"
| "ToString rt (JNum r) = Inr (Number_toString rt r)"
| "ToString rt (JStr s) = Inr s"
| "ToString rt (JArr vs) = Array_join rt vs"
| "ToString rt (JObj ms) =
     (if js ''toString'' \<in> set (map fst ms) then Inl TypeError else Inr (js ''[object Object]''))"
| "Array_join rt [] = Inr []"
| "Array_join rt (v # vs) =
     and_then (if v = JUndefined \<or> v = JNull then Inr [] else ToString rt v)
       (\<lambda>a. if vs = [] then Inr a
            else and_then (Array_join rt vs) (\<lambda>b. Inr (a @ js '','' @ b)))"

text \<open>\<open>s + v\<close> for a string \<open>s\<close>.\<close>

definition string_concat :: "runtime \<Rightarrow> jsstring \<Rightarrow> jsval \<Rightarrow> error + jsstring" where
  "string_concat rt s v = and_then (ToString rt v) (\<lambda>t. Inr (s @ t))"

text \<open>\<open>s.localeCompare(that)\<close>: the argument is converted to a string first.\<close>

definition String_localeCompare :: "runtime \<Rightarrow> jsstring \<Rightarrow> jsval \<Rightarrow> error + int" where
  "String_localeCompare rt s that = and_then (ToString rt that) (\<lambda>t. Inr (localeCompare rt s t))"

text \<open>\<open>s.indexOf(c)\<close> for a string \<open>c\<close> of one code unit.\<close>

definition String_indexOf :: "jsstring \<Rightarrow> nat \<Rightarrow> int" where
  "String_indexOf s c = (if c \<in> set s then int (length (takeWhile (\<lambda>x. x \<noteq> c) s)) else - 1)"

text \<open>\<open>s.substring(start, end)\<close>: both positions are clamped to the string, and swapped
  when the first is the larger.\<close>

definition String_substring :: "jsstring \<Rightarrow> int \<Rightarrow> int \<Rightarrow> jsstring" where
  "String_substring s start end =
     (let a = nat (min (max start 0) (int (length s)));
          b = nat (min (max end 0) (int (length s)))
      in take (max a b - min a b) (drop (min a b) s))"

section \<open>data.js\<close>

record account =
  account_id :: jsstring
  branch :: jsstring
  currency :: jsstring
  account_type :: jsstring
  balance :: jsstring
  owner :: jsstring
  nickname :: jsstring

record transfer =
  transfer_date :: jsstring
  amount :: jsstring
  transfer_currency :: jsstring
  creditor :: account
  debitor :: account

definition data_accounts :: "account list" where
  "data_accounts =
     [\<lparr>account_id = js ''516236577'', branch = js ''31801'', currency = js ''CAD'',
       account_type = js ''Checking'', balance = js ''$6,832.14'',
       owner = js ''469863216813'', nickname = js ''Checking''\<rparr>,
      \<lparr>account_id = js ''516236582'', branch = js ''31801'', currency = js ''CAD'',
       account_type = js ''Savings'', balance = js ''$37,851.64'',
       owner = js ''469863216813'', nickname = js ''Savings''\<rparr>,
      \<lparr>account_id = js ''516236631'', branch = js ''31801'', currency = js ''CAD'',
       account_type = js ''Credit Card'', balance = js ''-$11,278.40'',
       owner = js ''469863216813'', nickname = js ''Family Visa''\<rparr>,
      \<lparr>account_id = js ''745586325'', branch = js ''31801'', currency = js ''CAD'',
       account_type = js ''Checking'', balance = js ''$782.14'',
       owner = js ''467745863242'', nickname = js ''Checking''\<rparr>,
      \<lparr>account_id = js ''745586331'', branch = js ''31801'', currency = js ''CAD'',
       account_type = js ''Savings'', balance = js ''$1,875.65'',
       owner = js ''467745863242'', nickname = js ''Savings''\<rparr>,
      \<lparr>account_id = js ''745586340'', branch = js ''31801'', currency = js ''CAD'',
       account_type = js ''Credit Card'', balance = js ''-$3,887.40'',
       owner = js ''467745863242'', nickname = js ''Meg's Amex''\<rparr>]"

definition data_transfers :: "transfer list" where
  "data_transfers =
     [\<lparr>transfer_date = js ''Fri Feb 21 21:31:20 UTC 2019'', amount = js ''$9,874.25'',
       transfer_currency = js ''CAD'',
       creditor =
         \<lparr>account_id = js ''516236577'', branch = js ''31801'', currency = js ''CAD'',
          account_type = js ''Checking'', balance = js ''$6,832.14'',
          owner = js ''469863216813'', nickname = js ''Checking''\<rparr>,
       debitor =
         \<lparr>account_id = js ''516236631'', branch = js ''31801'', currency = js ''CAD'',
          account_type = js ''Credit Card'', balance = js ''-$11,278.40'',
          owner = js ''469863216813'', nickname = js ''Family Visa''\<rparr>\<rparr>,
      \<lparr>transfer_date = js ''Thu Feb 20 16:31:20 UTC 2019'', amount = js ''$9,874.25'',
       transfer_currency = js ''CAD'',
       creditor =
         \<lparr>account_id = js ''745586331'', branch = js ''31801'', currency = js ''CAD'',
          account_type = js ''Savings'', balance = js ''$1,875.65'',
          owner = js ''467745863242'', nickname = js ''Savings''\<rparr>,
       debitor =
         \<lparr>account_id = js ''745586325'', branch = js ''31801'', currency = js ''CAD'',
          account_type = js ''Checking'', balance = js ''$782.14'',
          owner = js ''467745863242'', nickname = js ''Checking''\<rparr>\<rparr>]"

section \<open>Resolving the subject (index.js)\<close>

text \<open>
  \<open>tokToSubjectFakeToks\<close>: the decoding is outside the \<open>try\<close> block and cannot throw; the
  parse and the property read are inside it, and any error gives the failure string.
\<close>

definition tokToSubjectFakeToks :: "jsstring \<Rightarrow> jsval" where
  "tokToSubjectFakeToks tok =
     (let decoded = Buffer_toString (Buffer_from_base64 tok)
      in case and_then (JSON_parse decoded) (\<lambda>ojedTok. Get ojedTok Prop_subject) of
           Inr subject \<Rightarrow> subject
         | Inl error \<Rightarrow> JStr (js ''Fake token failure''))"

text \<open>
  \<open>getPingFedPromise\<close> posts the token and the client id to the introspection endpoint.
  It listens to the \<open>data\<close>, \<open>end\<close> and \<open>error\<close> events of the response: when the response
  ends, the promise is fulfilled with the body, and when the response emits \<open>error\<close>, the
  promise is rejected. The request has no \<open>error\<close> listener and no timeout: when the
  request emits \<open>error\<close>, the unhandled event ends the process, and when nothing comes, the
  promise stays pending.
\<close>

definition client_id :: jsstring where
  "client_id = js ''graphql_client''"

definition getPingFedPromise :: "runtime \<Rightarrow> jsstring \<Rightarrow> jsstring promise" where
  "getPingFedPromise rt tok =
     (case https_request rt (js ''token='' @ tok @ js ''&client_id='' @ client_id) of
        Response_end response_body \<Rightarrow> Fulfilled response_body
      | Response_error \<Rightarrow> Rejected StreamError
      | Request_error \<Rightarrow> ProcessEnded
      | No_event \<Rightarrow> Unsettled)"

text \<open>The \<open>try\<close> block of \<open>tokToSubjectIntrospection\<close>, and the function with its \<open>catch\<close>.\<close>

definition introspection_attempt :: "runtime \<Rightarrow> jsstring \<Rightarrow> jsval promise" where
  "introspection_attempt rt tok =
     await (getPingFedPromise rt tok) (\<lambda>response_body. settled (
     and_then (JSON_parse response_body) (\<lambda>introspection_response.
     and_then (Get introspection_response Prop_active) (\<lambda>active.
       if \<not> ToBoolean active then Inr (JStr (js ''not authenticated''))
       else
         and_then (Get introspection_response Prop_active) (\<lambda>active'.
           if ToBoolean active' then
             and_then (Get introspection_response Prop_Username) (\<lambda>username.
               case username of
                 JStr u \<Rightarrow> Inr (JStr (String_substring u 0 (String_indexOf u (ord CHR ''@''))))
               | _ \<Rightarrow> Inl TypeError)
           else Inr (JStr (js ''Introspection failed'')))))))"

definition tokToSubjectIntrospection :: "runtime \<Rightarrow> jsstring \<Rightarrow> jsval promise" where
  "tokToSubjectIntrospection rt tok =
     (case introspection_attempt rt tok of
        Fulfilled subject \<Rightarrow> Fulfilled subject
      | Rejected error \<Rightarrow> Fulfilled (JStr (js ''Introspection failed''))
      | Unsettled \<Rightarrow> Unsettled
      | ProcessEnded \<Rightarrow> ProcessEnded)"

text \<open>
  \<open>tokToSubject\<close> selects the strategy by which of its two lines is commented out:
  index.js runs the second alternative, the README shows the first.
\<close>

datatype token_mode = Alternative1 | Alternative2

fun tokToSubject :: "runtime \<Rightarrow> token_mode \<Rightarrow> jsstring \<Rightarrow> jsval promise" where
  "tokToSubject rt Alternative1 tok = tokToSubjectIntrospection rt tok"
| "tokToSubject rt Alternative2 tok = Fulfilled (tokToSubjectFakeToks tok)"

text \<open>
  The request carries the \<open>authorization\<close> header or not; the context holds the request and
  the subject, which is \<open>undefined\<close> until \<open>contextToSubject\<close> writes it.
  \<open>contextToSubject\<close> is fulfilled with the context as it has changed it.
\<close>

record request =
  authorization :: "jsstring option"

record request_context =
  request :: request
  subject :: jsval

text \<open>\<open>req.headers.authorization || ''\<close>\<close>

definition header_token :: "request \<Rightarrow> jsstring" where
  "header_token req = (case authorization req of None \<Rightarrow> [] | Some h \<Rightarrow> h)"

definition contextToSubject ::
  "runtime \<Rightarrow> token_mode \<Rightarrow> request_context \<Rightarrow> request_context promise" where
  "contextToSubject rt mode ctx =
     (let token = header_token (request ctx)
      in if 7 < length token then
           (let bearertok = String_substring token 7 (int (length token))
            in await (tokToSubject rt mode bearertok) (\<lambda>s. Fulfilled (ctx\<lparr>subject := s\<rparr>)))
         else Fulfilled (ctx\<lparr>subject := JStr (js ''no subject present'')\<rparr>))"

section \<open>The resolvers (index.js)\<close>

text \<open>
  The loop over \<open>data.accounts\<close>: the records still to visit and the output so far.
  \<open>output[output.length] = x\<close> appends \<open>x\<close>.
\<close>

fun accounts_loop :: "runtime \<Rightarrow> jsval \<Rightarrow> account list \<Rightarrow> account list \<Rightarrow> error + account list" where
  "accounts_loop rt subj [] output = Inr output"
| "accounts_loop rt subj (a # rest) output =
     and_then (String_localeCompare rt (owner a) subj) (\<lambda>r.
       accounts_loop rt subj rest (if r = 0 then output @ [a] else output))"

fun transfers_loop :: "runtime \<Rightarrow> jsval \<Rightarrow> transfer list \<Rightarrow> transfer list \<Rightarrow> error + transfer list" where
  "transfers_loop rt subj [] output2 = Inr output2"
| "transfers_loop rt subj (t # rest) output2 =
     and_then (String_localeCompare rt (owner (creditor t)) subj) (\<lambda>r.
       transfers_loop rt subj rest (if r = 0 then output2 @ [t] else output2))"

text \<open>
  A resolver waits for \<open>contextToSubject\<close>, builds its log line (which converts the
  subject to a string) and filters the data. Its promise is fulfilled with the output, or
  rejected with the error that it throws; the context after the call is the one that
  \<open>contextToSubject\<close> gives.
\<close>

definition accounts :: "runtime \<Rightarrow> token_mode \<Rightarrow> request_context \<Rightarrow> account list promise" where
  "accounts rt mode ctx =
     await (contextToSubject rt mode ctx) (\<lambda>ctx'. settled (
       and_then (string_concat rt (js ''returning accounts for user '') (subject ctx')) (\<lambda>line.
         accounts_loop rt (subject ctx') data_accounts [])))"

definition transfers :: "runtime \<Rightarrow> token_mode \<Rightarrow> request_context \<Rightarrow> transfer list promise" where
  "transfers rt mode ctx =
     await (contextToSubject rt mode ctx) (\<lambda>ctx'. settled (
       and_then (string_concat rt (js ''returning transfers for user '') (subject ctx')) (\<lambda>line.
         transfers_loop rt (subject ctx') data_transfers [])))"

section \<open>The earlier version of index.js\<close>

text \<open>
  The earlier version resolves the subject when the context is built, without a \<open>try\<close>
  block, and its resolvers test the result of \<open>localeCompare\<close> as a truth value.
\<close>

definition tokToSubject2 :: "jsstring \<Rightarrow> error + jsval" where
  "tokToSubject2 tok =
     (let decoded = Buffer_toString (Buffer_from_base64 tok)
      in and_then (JSON_parse decoded) (\<lambda>ojedTok. Get ojedTok Prop_subject))"

definition reqToSubject :: "request \<Rightarrow> error + jsval" where
  "reqToSubject req =
     (let token = header_token req
      in if 7 < length token then
           (let bearertok = String_substring token 7 (int (length token))
            in tokToSubject2 bearertok)
         else Inr (JStr (js ''anonymous'')))"

fun accounts_loop2 :: "runtime \<Rightarrow> jsval \<Rightarrow> account list \<Rightarrow> account list \<Rightarrow> error + account list" where
  "accounts_loop2 rt subj [] output = Inr output"
| "accounts_loop2 rt subj (a # rest) output =
     and_then (String_localeCompare rt (owner a) subj) (\<lambda>r.
       accounts_loop2 rt subj rest (if r \<noteq> 0 then output @ [a] else output))"

fun transfers_loop2 :: "runtime \<Rightarrow> jsval \<Rightarrow> transfer list \<Rightarrow> transfer list \<Rightarrow> error + transfer list" where
  "transfers_loop2 rt subj [] output2 = Inr output2"
| "transfers_loop2 rt subj (t # rest) output2 =
     and_then (String_localeCompare rt (owner (creditor t)) subj) (\<lambda>r.
       transfers_loop2 rt subj rest (if r \<noteq> 0 then output2 @ [t] else output2))"

text \<open>The resolvers of the earlier version read the subject that the context holds.\<close>

definition accounts2 :: "runtime \<Rightarrow> jsval \<Rightarrow> error + account list" where
  "accounts2 rt subj =
     and_then (string_concat rt (js ''returning accounts for user '') subj) (\<lambda>line.
       accounts_loop2 rt subj data_accounts [])"

definition transfers2 :: "runtime \<Rightarrow> jsval \<Rightarrow> error + transfer list" where
  "transfers2 rt subj =
     and_then (string_concat rt (js ''returning transfers for user '') subj) (\<lambda>line.
       transfers_loop2 rt subj data_transfers [])"

section \<open>Making a token\<close>

text \<open>
  The requester makes the tokens; data.js says how: they are the base64 encoded
  JavaScript objects, such as \<open>{"subject":"469863216813","scopes":"names"}\<close>. The
  definitions below are the standard encoders: base64 with padding, the UTF-8 bytes of a
  string (\<open>Buffer.from(s)\<close>, where a lone surrogate becomes U+FFFD), and the text that
  \<open>JSON.stringify\<close> gives for an object with the one member \<open>subject\<close> (a quote, a
  backslash, a control character and a lone surrogate are escaped).
\<close>

definition base64_char :: "nat \<Rightarrow> nat" where
  "base64_char v =
     (if v < 26 then ord CHR ''A'' + v
      else if v < 52 then ord CHR ''a'' + (v - 26)
      else if v < 62 then ord CHR ''0'' + (v - 52)
      else if v = 62 then ord CHR ''+''
      else ord CHR ''/'')"

fun base64_encode :: "nat list \<Rightarrow> jsstring" where
  "base64_encode (a # b # c # rest) =
     base64_char (a div 4) # base64_char ((a mod 4) * 16 + b div 16) #
     base64_char ((b mod 16) * 4 + c div 64) # base64_char (c mod 64) # base64_encode rest"
| "base64_encode [a, b] =
     [base64_char (a div 4), base64_char ((a mod 4) * 16 + b div 16),
      base64_char ((b mod 16) * 4), ord CHR ''='']"
| "base64_encode [a] =
     [base64_char (a div 4), base64_char ((a mod 4) * 16), ord CHR ''='', ord CHR ''='']"
| "base64_encode [] = []"

definition is_high :: "nat \<Rightarrow> bool" where
  "is_high c \<longleftrightarrow> 0xD800 \<le> c \<and> c < 0xDC00"

definition is_low :: "nat \<Rightarrow> bool" where
  "is_low c \<longleftrightarrow> 0xDC00 \<le> c \<and> c < 0xE000"

definition lone :: "nat \<Rightarrow> nat" where
  "lone c = (if is_high c \<or> is_low c then 0xFFFD else c)"

fun utf16_code_points :: "jsstring \<Rightarrow> nat list" where
  "utf16_code_points [] = []"
| "utf16_code_points [c] = [lone c]"
| "utf16_code_points (c # d # ds) =
     (if is_high c \<and> is_low d then
        (0x10000 + (c - 0xD800) * 0x400 + (d - 0xDC00)) # utf16_code_points ds
      else lone c # utf16_code_points (d # ds))"

definition utf8_bytes :: "nat \<Rightarrow> nat list" where
  "utf8_bytes cp =
     (if cp < 0x80 then [cp]
      else if cp < 0x800 then [0xC0 + cp div 64, 0x80 + cp mod 64]
      else if cp < 0x10000 then
        [0xE0 + cp div 4096, 0x80 + (cp div 64) mod 64, 0x80 + cp mod 64]
      else
        [0xF0 + cp div 262144, 0x80 + (cp div 4096) mod 64, 0x80 + (cp div 64) mod 64,
         0x80 + cp mod 64])"

definition Buffer_from_utf8 :: "jsstring \<Rightarrow> nat list" where
  "Buffer_from_utf8 s = concat (map utf8_bytes (utf16_code_points s))"

definition scalar :: "nat \<Rightarrow> bool" where
  "scalar cp \<longleftrightarrow> cp < 0x110000 \<and> (cp < 0xD800 \<or> 0xE000 \<le> cp)"

text \<open>A string without a lone surrogate.\<close>

fun paired :: "jsstring \<Rightarrow> bool" where
  "paired [] = True"
| "paired [c] = (\<not> is_high c \<and> \<not> is_low c)"
| "paired (c # d # ds) =
     (if is_high c \<and> is_low d then paired ds
      else \<not> is_high c \<and> \<not> is_low c \<and> paired (d # ds))"

definition hex_digit :: "nat \<Rightarrow> nat" where
  "hex_digit d = (if d < 10 then ord CHR ''0'' + d else ord CHR ''a'' + (d - 10))"

definition unicode_escape :: "nat \<Rightarrow> jsstring" where
  "unicode_escape c =
     [92, ord CHR ''u'', hex_digit (c div 4096), hex_digit ((c div 256) mod 16),
      hex_digit ((c div 16) mod 16), hex_digit (c mod 16)]"

definition quote_unit :: "nat \<Rightarrow> jsstring" where
  "quote_unit c =
     (if c = 8 then [92, ord CHR ''b'']
      else if c = 9 then [92, ord CHR ''t'']
      else if c = 10 then [92, ord CHR ''n'']
      else if c = 12 then [92, ord CHR ''f'']
      else if c = 13 then [92, ord CHR ''r'']
      else if c = 34 then [92, 34]
      else if c = 92 then [92, 92]
      else if c < 32 \<or> is_high c \<or> is_low c then unicode_escape c
      else [c])"

fun JSON_quote_units :: "jsstring \<Rightarrow> jsstring" where
  "JSON_quote_units [] = []"
| "JSON_quote_units [c] = quote_unit c"
| "JSON_quote_units (c # d # ds) =
     (if is_high c \<and> is_low d then c # d # JSON_quote_units ds
      else quote_unit c @ JSON_quote_units (d # ds))"

definition JSON_stringify_subject :: "jsstring \<Rightarrow> jsstring" where
  "JSON_stringify_subject X = js ''{\"subject\":\"'' @ JSON_quote_units X @ js ''\"}''"

definition fake_token :: "jsstring \<Rightarrow> jsstring" where
  "fake_token X = base64_encode (Buffer_from_utf8 (JSON_stringify_subject X))"

section \<open>A runtime for the examples\<close>

text \<open>
  Collation by code units, smallest first; no text for numbers; an introspection endpoint
  that refuses the connection, as when nothing listens at its port.
\<close>

fun compare_units :: "jsstring \<Rightarrow> jsstring \<Rightarrow> int" where
  "compare_units [] [] = 0"
| "compare_units [] (y # ys) = - 1"
| "compare_units (x # xs) [] = 1"
| "compare_units (x # xs) (y # ys) =
     (if x < y then - 1 else if y < x then 1 else compare_units xs ys)"

definition example_runtime :: runtime where
  "example_runtime =
     \<lparr>localeCompare = compare_units,
      Number_toString = (\<lambda>r. []),
      https_request = (\<lambda>body. Request_error)\<rparr>"

text \<open>
  The collation of the platform gives 0 for some strings that differ: it ignores
  characters such as the zero width space U+200B. What the theorems below ask of a
  collation is less than exactness: that among strings of printable ASCII characters only
  equal strings compare as equal.
\<close>

definition printable :: "jsstring \<Rightarrow> bool" where
  "printable s \<longleftrightarrow> (\<forall>c\<in>set s. 32 \<le> c \<and> c < 127)"

definition exact_on_printable :: "runtime \<Rightarrow> bool" where
  "exact_on_printable rt \<longleftrightarrow>
     (\<forall>a b. printable a \<and> printable b \<longrightarrow> (localeCompare rt a b = 0 \<longleftrightarrow> a = b))"

text \<open>A runtime whose collation ignores the zero width space.\<close>

definition compare_ignoring :: "jsstring \<Rightarrow> jsstring \<Rightarrow> int" where
  "compare_ignoring a b =
     compare_units (filter (\<lambda>c. c \<noteq> 0x200B) a) (filter (\<lambda>c. c \<noteq> 0x200B) b)"

definition ignoring_runtime :: runtime where
  "ignoring_runtime = example_runtime\<lparr>localeCompare := compare_ignoring\<rparr>"

text \<open>The strings that stand for a missing or failed identity.\<close>

definition sentinels :: "jsstring list" where
  "sentinels =
     [js ''no subject present'', js ''anonymous'', js ''not authenticated'',
      js ''Fake token failure'', js ''Introspection failed'']"

section \<open>Facts about the platform functions\<close>

lemma compare_units_zero: "compare_units a b = 0 \<longleftrightarrow> a = b"
  by (induction a b rule: compare_units.induct) auto

lemma printable_kept: "printable s \<Longrightarrow> filter (\<lambda>c. c \<noteq> 0x200B) s = s"
  by (induction s) (auto simp: printable_def)

lemma ignoring_runtime_printable: "exact_on_printable ignoring_runtime"
  by (simp add: exact_on_printable_def ignoring_runtime_def compare_ignoring_def printable_kept
      compare_units_zero)

lemma ignoring_runtime_not_exact:
  "localeCompare ignoring_runtime (js ''469863216813'') (js ''469863216813'' @ [0x200B]) = 0"
  by (simp add: ignoring_runtime_def compare_ignoring_def)

lemma await_fulfilled: "p = Fulfilled x \<Longrightarrow> await p f = f x"
  by simp

lemma localeCompare_string:
  "String_localeCompare rt s (JStr t) = Inr (localeCompare rt s t)"
  by (simp add: String_localeCompare_def)

lemma line_string: "string_concat rt p (JStr t) = Inr (p @ t)"
  by (simp add: string_concat_def)

lemma substring_from_7: "7 < length t \<Longrightarrow> String_substring t 7 (int (length t)) = drop 7 t"
  by (simp add: String_substring_def Let_def max_def min_def)

section \<open>The loops as filters\<close>

lemma accounts_loop_string:
  "accounts_loop rt (JStr s) xs out =
     Inr (out @ filter (\<lambda>a. localeCompare rt (owner a) s = 0) xs)"
  by (induction xs arbitrary: out) (simp_all add: localeCompare_string)

lemma transfers_loop_string:
  "transfers_loop rt (JStr s) xs out =
     Inr (out @ filter (\<lambda>t. localeCompare rt (owner (creditor t)) s = 0) xs)"
  by (induction xs arbitrary: out) (simp_all add: localeCompare_string)

lemma accounts_loop2_string:
  "accounts_loop2 rt (JStr s) xs out =
     Inr (out @ filter (\<lambda>a. localeCompare rt (owner a) s \<noteq> 0) xs)"
  by (induction xs arbitrary: out) (simp_all add: localeCompare_string)

lemma transfers_loop2_string:
  "transfers_loop2 rt (JStr s) xs out =
     Inr (out @ filter (\<lambda>t. localeCompare rt (owner (creditor t)) s \<noteq> 0) xs)"
  by (induction xs arbitrary: out) (simp_all add: localeCompare_string)

lemma accounts_string:
  assumes "contextToSubject rt mode ctx = Fulfilled ctx'" and "subject ctx' = JStr s"
  shows "accounts rt mode ctx =
           Fulfilled (filter (\<lambda>a. localeCompare rt (owner a) s = 0) data_accounts)"
  using assms by (simp add: accounts_def line_string accounts_loop_string)

lemma transfers_string:
  assumes "contextToSubject rt mode ctx = Fulfilled ctx'" and "subject ctx' = JStr s"
  shows "transfers rt mode ctx =
           Fulfilled (filter (\<lambda>t. localeCompare rt (owner (creditor t)) s = 0) data_transfers)"
  using assms by (simp add: transfers_def line_string transfers_loop_string)

lemma owners_printable:
  "\<forall>a\<in>set data_accounts. printable (owner a)"
  "\<forall>t\<in>set data_transfers. printable (owner (creditor t))"
  by (simp_all add: data_accounts_def data_transfers_def printable_def)

lemma accounts_exact:
  assumes "exact_on_printable rt" and "printable s"
    and "contextToSubject rt mode ctx = Fulfilled ctx'" and "subject ctx' = JStr s"
  shows "accounts rt mode ctx = Fulfilled (filter (\<lambda>a. owner a = s) data_accounts)"
proof -
  have "filter (\<lambda>a. localeCompare rt (owner a) s = 0) data_accounts =
      filter (\<lambda>a. owner a = s) data_accounts"
    using assms(1,2) owners_printable(1) by (intro filter_cong) (auto simp: exact_on_printable_def)
  with accounts_string [OF assms(3,4)] show ?thesis by simp
qed

lemma transfers_exact:
  assumes "exact_on_printable rt" and "printable s"
    and "contextToSubject rt mode ctx = Fulfilled ctx'" and "subject ctx' = JStr s"
  shows "transfers rt mode ctx =
           Fulfilled (filter (\<lambda>t. owner (creditor t) = s) data_transfers)"
proof -
  have "filter (\<lambda>t. localeCompare rt (owner (creditor t)) s = 0) data_transfers =
      filter (\<lambda>t. owner (creditor t) = s) data_transfers"
    using assms(1,2) owners_printable(2) by (intro filter_cong) (auto simp: exact_on_printable_def)
  with transfers_string [OF assms(3,4)] show ?thesis by simp
qed

text \<open>
  Where the collation is not exact, a subject that is not the owner gets the owner's
  accounts from index.js: here the owner followed by a zero width space.
\<close>

lemma accounts_ignored_character:
  "accounts_loop ignoring_runtime (JStr (js ''469863216813'' @ [0x200B])) data_accounts [] =
     Inr (take 3 data_accounts)"
  unfolding accounts_loop_string
  by (simp add: ignoring_runtime_def compare_ignoring_def data_accounts_def)

lemma context_long:
  assumes "7 < length h"
  shows "contextToSubject rt mode \<lparr>request = \<lparr>authorization = Some h\<rparr>, subject = su\<rparr> =
           await (tokToSubject rt mode (drop 7 h))
             (\<lambda>s. Fulfilled \<lparr>request = \<lparr>authorization = Some h\<rparr>, subject = s\<rparr>)"
  using assms by (simp add: contextToSubject_def header_token_def substring_from_7)

lemma accounts2_string:
  "accounts2 rt (JStr s) = Inr (filter (\<lambda>a. localeCompare rt (owner a) s \<noteq> 0) data_accounts)"
  by (simp add: accounts2_def line_string accounts_loop2_string)

lemma transfers2_string:
  "transfers2 rt (JStr s) =
     Inr (filter (\<lambda>t. localeCompare rt (owner (creditor t)) s \<noteq> 0) data_transfers)"
  by (simp add: transfers2_def line_string transfers_loop2_string)

section \<open>The sample tokens\<close>

lemma sample_token_decoded:
  "Buffer_toString (Buffer_from_base64
      (js ''eyJzdWJqZWN0IjoiNDY5ODYzMjE2ODEzIiwic2NvcGVzIjoibmFtZXMifQ=='')) =
   js ''{\"subject\":\"469863216813\",\"scopes\":\"names\"}''"
  by (simp add: Buffer_toString_def Buffer_from_base64_def unbase64_def utf8_lead_def
      utf16_units_def)

lemma sample_token_tokens:
  "lex (js ''{\"subject\":\"469863216813\",\"scopes\":\"names\"}'') =
   Some [LBrace, Scalar (JStr (js ''subject'')), Colon, Scalar (JStr (js ''469863216813'')),
         Comma, Scalar (JStr (js ''scopes'')), Colon, Scalar (JStr (js ''names'')), RBrace]"
  by (simp add: is_ws_def is_digit_def emit_def prepend_def)

lemma sample_token_parsed:
  "JSON_parse (Buffer_toString (Buffer_from_base64
      (js ''eyJzdWJqZWN0IjoiNDY5ODYzMjE2ODEzIiwic2NvcGVzIjoibmFtZXMifQ==''))) =
   Inr (JObj [(js ''subject'', JStr (js ''469863216813'')), (js ''scopes'', JStr (js ''names''))])"
  unfolding sample_token_decoded JSON_parse_def sample_token_tokens by simp

lemma sample_token_subject:
  "tokToSubjectFakeToks (js ''eyJzdWJqZWN0IjoiNDY5ODYzMjE2ODEzIiwic2NvcGVzIjoibmFtZXMifQ=='') =
   JStr (js ''469863216813'')"
  unfolding tokToSubjectFakeToks_def Let_def sample_token_parsed by simp

lemma sample_token_subject2:
  "tokToSubject2 (js ''eyJzdWJqZWN0IjoiNDY5ODYzMjE2ODEzIiwic2NvcGVzIjoibmFtZXMifQ=='') =
   Inr (JStr (js ''469863216813''))"
  unfolding tokToSubject2_def Let_def sample_token_parsed by simp

lemma drop_bearer:
  "drop 7 (js ''Bearer eyJzdWJqZWN0IjoiNDY5ODYzMjE2ODEzIiwic2NvcGVzIjoibmFtZXMifQ=='') =
   js ''eyJzdWJqZWN0IjoiNDY5ODYzMjE2ODEzIiwic2NvcGVzIjoibmFtZXMifQ==''"
  by simp

lemma sample_request_subject2:
  "reqToSubject \<lparr>authorization =
      Some (js ''Bearer eyJzdWJqZWN0IjoiNDY5ODYzMjE2ODEzIiwic2NvcGVzIjoibmFtZXMifQ=='')\<rparr> =
   Inr (JStr (js ''469863216813''))"
proof -
  have "7 < length (js ''Bearer eyJzdWJqZWN0IjoiNDY5ODYzMjE2ODEzIiwic2NvcGVzIjoibmFtZXMifQ=='')"
    by simp
  then show ?thesis
    unfolding reqToSubject_def header_token_def Let_def
    by (simp only: request.simps option.case if_True substring_from_7 drop_bearer
        sample_token_subject2)
qed

section \<open>The filters of the earlier version\<close>

text \<open>
  C1, in the earlier version of index.js. The claim: the accounts operation includes a record
  if and only if its owner equals the subject. With the sample token of subject
  469863216813 the earlier version returns the three accounts of the other owner and none
  of the subject's own.
\<close>

theorem accounts2_other_owner:
  "map_sum id (map account_id)
     (and_then
        (reqToSubject \<lparr>authorization =
           Some (js ''Bearer eyJzdWJqZWN0IjoiNDY5ODYzMjE2ODEzIiwic2NvcGVzIjoibmFtZXMifQ=='')\<rparr>)
        (accounts2 example_runtime)) =
   Inr [js ''745586325'', js ''745586331'', js ''745586340'']"
  unfolding sample_request_subject2
  by (simp add: accounts2_string example_runtime_def data_accounts_def)

text \<open>
  C2, in the earlier version of index.js. The claim: the transfers operation includes a
  transfer if and only if the owner of its creditor leg equals the subject. With the sample
  token of subject 469863216813 the earlier version returns the one transfer whose
  creditor belongs to the other owner.
\<close>

theorem transfers2_other_owner:
  "map_sum id (map (\<lambda>t. owner (creditor t)))
     (and_then
        (reqToSubject \<lparr>authorization =
           Some (js ''Bearer eyJzdWJqZWN0IjoiNDY5ODYzMjE2ODEzIiwic2NvcGVzIjoibmFtZXMifQ=='')\<rparr>)
        (transfers2 example_runtime)) =
   Inr [js ''467745863242'']"
  unfolding sample_request_subject2
  by (simp add: transfers2_string example_runtime_def data_transfers_def)

text \<open>The debitor leg takes no part in the decision of index.js.\<close>

lemma transfers_loop_debitor:
  "transfers_loop rt subj (map (\<lambda>t. t\<lparr>debitor := d t\<rparr>) xs) (map (\<lambda>t. t\<lparr>debitor := d t\<rparr>) out) =
     map_sum id (map (\<lambda>t. t\<lparr>debitor := d t\<rparr>)) (transfers_loop rt subj xs out)"
proof (induction xs arbitrary: out)
  case Nil
  then show ?case by simp
next
  case (Cons t xs)
  show ?case
  proof (cases "String_localeCompare rt (owner (creditor t)) subj")
    case (Inl e)
    then show ?thesis by simp
  next
    case (Inr r)
    then show ?thesis
      using Cons.IH [of "out @ [t]"] Cons.IH [of out] by simp
  qed
qed

section \<open>Tokens that are not JSON\<close>

lemma fake_token_failure:
  assumes "JSON_parse (Buffer_toString (Buffer_from_base64 tok)) = Inl e"
  shows "tokToSubjectFakeToks tok = JStr (js ''Fake token failure'')"
  using assms by (simp add: tokToSubjectFakeToks_def)

lemma fake_token_never_throws:
  "tokToSubjectFakeToks tok = JStr (js ''Fake token failure'') \<or>
   (\<exists>v. JSON_parse (Buffer_toString (Buffer_from_base64 tok)) = Inr v \<and>
        Get v Prop_subject = Inr (tokToSubjectFakeToks tok))"
  by (cases "JSON_parse (Buffer_toString (Buffer_from_base64 tok))";
      cases "Get (projr (JSON_parse (Buffer_toString (Buffer_from_base64 tok)))) Prop_subject")
    (auto simp: tokToSubjectFakeToks_def)

lemma context_fake_token_failure:
  assumes "7 < length h"
    and "JSON_parse (Buffer_toString (Buffer_from_base64 (drop 7 h))) = Inl e"
  shows "contextToSubject rt Alternative2 \<lparr>request = \<lparr>authorization = Some h\<rparr>, subject = su\<rparr> =
           Fulfilled \<lparr>request = \<lparr>authorization = Some h\<rparr>,
                      subject = JStr (js ''Fake token failure'')\<rparr>"
  using assms by (simp add: context_long fake_token_failure)

lemma zero_bytes_decoded: "Buffer_toString (Buffer_from_base64 (js ''AAAA'')) = [0, 0, 0]"
  by (simp add: Buffer_toString_def Buffer_from_base64_def unbase64_def utf8_lead_def
      utf16_units_def)

lemma zero_bytes_not_json: "JSON_parse [0, 0, 0] = Inl SyntaxError"
  by (simp add: JSON_parse_def is_ws_def is_digit_def)

text \<open>
  C3, in the earlier version of index.js. The claim: when the remainder of the credential is
  not base64-encoded JSON, resolution returns the failure string and raises nothing. The
  remainder \<open>AAAA\<close> decodes to three zero bytes, which are not JSON, and the earlier version
  throws the parser's error out of \<open>reqToSubject\<close>.
\<close>

theorem reqToSubject_throws:
  "JSON_parse (Buffer_toString (Buffer_from_base64 (js ''AAAA''))) = Inl SyntaxError \<and>
   reqToSubject \<lparr>authorization = Some (js ''Bearer AAAA'')\<rparr> = Inl SyntaxError"
proof -
  have p: "JSON_parse (Buffer_toString (Buffer_from_base64 (js ''AAAA''))) = Inl SyntaxError"
    unfolding zero_bytes_decoded by (rule zero_bytes_not_json)
  have "String_substring (js ''Bearer AAAA'') 7 (int (length (js ''Bearer AAAA''))) = js ''AAAA''"
    by (simp add: String_substring_def)
  with p show ?thesis
    by (simp add: reqToSubject_def header_token_def tokToSubject2_def)
qed

section \<open>The length of the header\<close>

text \<open>
  C4. The claim: a header that is absent, empty or shorter than 7 characters gives the
  no-credential string, and otherwise the substring after the first 7 characters goes to the
  token resolution. The header \<open>Bearer \<close> has exactly 7 characters, so it is not shorter
  than 7; it gives the no-credential string all the same, and not what the token resolution
  makes of the empty remainder. So does \<open>Bearerx\<close>, which has no space at its end.
\<close>

theorem prefix_only_counterexample:
  "\<not> length (js ''Bearer '') < 7 \<and>
   contextToSubject example_runtime Alternative2
      \<lparr>request = \<lparr>authorization = Some (js ''Bearer '')\<rparr>, subject = JUndefined\<rparr> =
     Fulfilled \<lparr>request = \<lparr>authorization = Some (js ''Bearer '')\<rparr>,
                subject = JStr (js ''no subject present'')\<rparr> \<and>
   tokToSubject example_runtime Alternative2 (drop 7 (js ''Bearer '')) =
     Fulfilled (JStr (js ''Fake token failure'')) \<and>
   reqToSubject \<lparr>authorization = Some (js ''Bearer '')\<rparr> = Inr (JStr (js ''anonymous'')) \<and>
   tokToSubject2 (drop 7 (js ''Bearer '')) = Inl SyntaxError \<and>
   \<not> length (js ''Bearerx'') < 7 \<and>
   contextToSubject example_runtime Alternative2
      \<lparr>request = \<lparr>authorization = Some (js ''Bearerx'')\<rparr>, subject = JUndefined\<rparr> =
     Fulfilled \<lparr>request = \<lparr>authorization = Some (js ''Bearerx'')\<rparr>,
                subject = JStr (js ''no subject present'')\<rparr> \<and>
   tokToSubject example_runtime Alternative2 (drop 7 (js ''Bearerx'')) =
     Fulfilled (JStr (js ''Fake token failure'')) \<and>
   reqToSubject \<lparr>authorization = Some (js ''Bearerx'')\<rparr> = Inr (JStr (js ''anonymous'')) \<and>
   tokToSubject2 (drop 7 (js ''Bearerx'')) = Inl SyntaxError"
  by (simp add: contextToSubject_def header_token_def reqToSubject_def tokToSubjectFakeToks_def
      tokToSubject2_def Buffer_toString_def Buffer_from_base64_def JSON_parse_def)

text \<open>
  C4 as amended: a header that is absent, empty or of at most 7 characters gives the
  no-credential string (\<open>no subject present\<close>, or \<open>anonymous\<close> in the earlier version),
  whatever the runtime and the strategy; a longer one gives what the token resolution makes
  of the characters after the first 7.
\<close>

theorem header_length_gate:
  "header_token \<lparr>authorization = None\<rparr> = [] \<and>
   contextToSubject rt mode ctx =
     (if length (header_token (request ctx)) \<le> 7
      then Fulfilled (ctx\<lparr>subject := JStr (js ''no subject present'')\<rparr>)
      else await (tokToSubject rt mode (drop 7 (header_token (request ctx))))
             (\<lambda>s. Fulfilled (ctx\<lparr>subject := s\<rparr>))) \<and>
   reqToSubject req =
     (if length (header_token req) \<le> 7 then Inr (JStr (js ''anonymous''))
      else tokToSubject2 (drop 7 (header_token req)))"
  by (simp add: contextToSubject_def reqToSubject_def Let_def substring_from_7 header_token_def)

section \<open>Subjects that own nothing\<close>

text \<open>
  C5. None of the five strings that stand for a missing or failed identity is the owner of
  an account or of a leg of a transfer in data.js. So when the resolved subject is one of
  them, and in particular when the request has no authorization header, the accounts and the
  transfers operations of index.js both return the empty list. This holds for every
  collation that gives 0 for no two different strings of printable ASCII characters.
\<close>

theorem sentinel_sees_nothing:
  assumes "exact_on_printable rt" and "s \<in> set sentinels"
  shows "s \<notin> owner ` set data_accounts \<and>
         s \<notin> (\<lambda>t. owner (creditor t)) ` set data_transfers \<and>
         s \<notin> (\<lambda>t. owner (debitor t)) ` set data_transfers \<and>
         (contextToSubject rt mode ctx = Fulfilled ctx' \<and> subject ctx' = JStr s \<longrightarrow>
            accounts rt mode ctx = Fulfilled [] \<and> transfers rt mode ctx = Fulfilled []) \<and>
         (authorization (request ctx) = None \<longrightarrow>
            accounts rt mode ctx = Fulfilled [] \<and> transfers rt mode ctx = Fulfilled [])"
proof -
  have a: "s \<notin> owner ` set data_accounts"
    using assms(2) by (auto simp: sentinels_def data_accounts_def)
  have c: "s \<notin> (\<lambda>t. owner (creditor t)) ` set data_transfers"
    using assms(2) by (auto simp: sentinels_def data_transfers_def)
  have d: "s \<notin> (\<lambda>t. owner (debitor t)) ` set data_transfers"
    using assms(2) by (auto simp: sentinels_def data_transfers_def)
  have none: "accounts rt mode ctx = Fulfilled [] \<and> transfers rt mode ctx = Fulfilled []"
    if "contextToSubject rt mode ctx = Fulfilled ctx''" and "subject ctx'' = JStr s'"
      and "s' \<in> set sentinels" for s' ctx''
  proof -
    have p: "printable s'"
      using that(3) by (auto simp: sentinels_def printable_def)
    have "filter (\<lambda>a. owner a = s') data_accounts = []"
      using that(3) by (auto simp: sentinels_def data_accounts_def)
    moreover have "filter (\<lambda>t. owner (creditor t) = s') data_transfers = []"
      using that(3) by (auto simp: sentinels_def data_transfers_def)
    ultimately show ?thesis
      using accounts_exact [OF assms(1) p that(1,2)] transfers_exact [OF assms(1) p that(1,2)]
      by simp
  qed
  have absent: "contextToSubject rt mode ctx =
      Fulfilled (ctx\<lparr>subject := JStr (js ''no subject present'')\<rparr>)"
    if "authorization (request ctx) = None"
    using that by (simp add: contextToSubject_def header_token_def)
  have "js ''no subject present'' \<in> set sentinels"
    by (simp add: sentinels_def)
  with none [OF absent] have
    "authorization (request ctx) = None \<longrightarrow>
       accounts rt mode ctx = Fulfilled [] \<and> transfers rt mode ctx = Fulfilled []"
    by simp
  with none [OF _ _ assms(2)] a c d show ?thesis by blast
qed

theorem sentinel_sees_nothing_witness:
  "exact_on_printable ignoring_runtime \<and>
   localeCompare ignoring_runtime (js ''469863216813'') (js ''469863216813'' @ [0x200B]) = 0 \<and>
   js ''no subject present'' \<in> set sentinels \<and>
   authorization (request \<lparr>request = \<lparr>authorization = None\<rparr>, subject = JUndefined\<rparr>) = None \<and>
   contextToSubject ignoring_runtime Alternative2
      \<lparr>request = \<lparr>authorization = None\<rparr>, subject = JUndefined\<rparr> =
     Fulfilled \<lparr>request = \<lparr>authorization = None\<rparr>, subject = JStr (js ''no subject present'')\<rparr> \<and>
   accounts ignoring_runtime Alternative2
      \<lparr>request = \<lparr>authorization = None\<rparr>, subject = JUndefined\<rparr> = Fulfilled [] \<and>
   transfers ignoring_runtime Alternative2
      \<lparr>request = \<lparr>authorization = None\<rparr>, subject = JUndefined\<rparr> = Fulfilled []"
proof -
  have s: "js ''no subject present'' \<in> set sentinels"
    by (simp add: sentinels_def)
  have h: "contextToSubject ignoring_runtime Alternative2
      \<lparr>request = \<lparr>authorization = None\<rparr>, subject = JUndefined\<rparr> =
     Fulfilled \<lparr>request = \<lparr>authorization = None\<rparr>, subject = JStr (js ''no subject present'')\<rparr>"
    by (simp add: contextToSubject_def header_token_def)
  have n: "authorization (request \<lparr>request = \<lparr>authorization = None\<rparr>, subject = JUndefined\<rparr>) = None"
    by simp
  from sentinel_sees_nothing [OF ignoring_runtime_printable s, of Alternative2
        "\<lparr>request = \<lparr>authorization = None\<rparr>, subject = JUndefined\<rparr>"] n
  have "accounts ignoring_runtime Alternative2
      \<lparr>request = \<lparr>authorization = None\<rparr>, subject = JUndefined\<rparr> = Fulfilled []"
    and "transfers ignoring_runtime Alternative2
      \<lparr>request = \<lparr>authorization = None\<rparr>, subject = JUndefined\<rparr> = Fulfilled []"
    by blast+
  with ignoring_runtime_printable ignoring_runtime_not_exact s n h show ?thesis
    by blast
qed

section \<open>The sample subject\<close>

text \<open>
  C6. With the data of data.js, a request of index.js whose token resolves to the subject
  469863216813 gets from the accounts operation the first three accounts, with ids
  516236577, 516236582 and 516236631, all owned by that subject, and from the transfers
  operation the one transfer whose creditor is owned by that subject. Of the collation this
  asks that the owner 469863216813 compares as equal to itself, and the other owner,
  467745863242, does not compare as equal to it.
\<close>

theorem sample_subject_results:
  assumes "localeCompare rt (js ''469863216813'') (js ''469863216813'') = 0"
    and "localeCompare rt (js ''467745863242'') (js ''469863216813'') \<noteq> 0"
    and "7 < length h"
    and "tokToSubjectFakeToks (drop 7 h) = JStr (js ''469863216813'')"
  shows "accounts rt Alternative2 \<lparr>request = \<lparr>authorization = Some h\<rparr>, subject = su\<rparr> =
           Fulfilled (take 3 data_accounts) \<and>
         map account_id (take 3 data_accounts) =
           [js ''516236577'', js ''516236582'', js ''516236631''] \<and>
         map owner data_accounts =
           [js ''469863216813'', js ''469863216813'', js ''469863216813'',
            js ''467745863242'', js ''467745863242'', js ''467745863242''] \<and>
         transfers rt Alternative2 \<lparr>request = \<lparr>authorization = Some h\<rparr>, subject = su\<rparr> =
           Fulfilled (take 1 data_transfers) \<and>
         map (\<lambda>t. owner (creditor t)) data_transfers = [js ''469863216813'', js ''467745863242'']"
proof -
  let ?ctx = "\<lparr>request = \<lparr>authorization = Some h\<rparr>, subject = su\<rparr>"
  let ?ctx' = "\<lparr>request = \<lparr>authorization = Some h\<rparr>, subject = JStr (js ''469863216813'')\<rparr>"
  have s: "contextToSubject rt Alternative2 ?ctx = Fulfilled ?ctx'"
    using assms(3,4) by (simp add: context_long)
  have s': "subject ?ctx' = JStr (js ''469863216813'')"
    by simp
  have a: "filter (\<lambda>a. localeCompare rt (owner a) (js ''469863216813'') = 0) data_accounts =
      take 3 data_accounts"
    using assms(1,2) by (simp add: data_accounts_def)
  have t: "filter (\<lambda>t. localeCompare rt (owner (creditor t)) (js ''469863216813'') = 0)
      data_transfers = take 1 data_transfers"
    using assms(1,2) by (simp add: data_transfers_def)
  have ids: "map account_id (take 3 data_accounts) =
      [js ''516236577'', js ''516236582'', js ''516236631'']"
    by (simp add: data_accounts_def)
  have owners: "map owner data_accounts =
      [js ''469863216813'', js ''469863216813'', js ''469863216813'',
       js ''467745863242'', js ''467745863242'', js ''467745863242'']"
    by (simp add: data_accounts_def)
  have creditors: "map (\<lambda>t. owner (creditor t)) data_transfers =
      [js ''469863216813'', js ''467745863242'']"
    by (simp add: data_transfers_def)
  have "accounts rt Alternative2 ?ctx = Fulfilled (take 3 data_accounts)"
    unfolding accounts_string [OF s s'] a ..
  moreover have "transfers rt Alternative2 ?ctx = Fulfilled (take 1 data_transfers)"
    unfolding transfers_string [OF s s'] t ..
  ultimately show ?thesis
    using ids owners creditors by blast
qed

theorem sample_subject_results_witness:
  "localeCompare ignoring_runtime (js ''469863216813'') (js ''469863216813'') = 0 \<and>
   localeCompare ignoring_runtime (js ''467745863242'') (js ''469863216813'') \<noteq> 0 \<and>
   7 < length (js ''Bearer eyJzdWJqZWN0IjoiNDY5ODYzMjE2ODEzIiwic2NvcGVzIjoibmFtZXMifQ=='') \<and>
   tokToSubjectFakeToks
     (drop 7 (js ''Bearer eyJzdWJqZWN0IjoiNDY5ODYzMjE2ODEzIiwic2NvcGVzIjoibmFtZXMifQ=='')) =
     JStr (js ''469863216813'') \<and>
   accounts ignoring_runtime Alternative2
      \<lparr>request = \<lparr>authorization =
          Some (js ''Bearer eyJzdWJqZWN0IjoiNDY5ODYzMjE2ODEzIiwic2NvcGVzIjoibmFtZXMifQ=='')\<rparr>,
       subject = JUndefined\<rparr> = Fulfilled (take 3 data_accounts) \<and>
   transfers ignoring_runtime Alternative2
      \<lparr>request = \<lparr>authorization =
          Some (js ''Bearer eyJzdWJqZWN0IjoiNDY5ODYzMjE2ODEzIiwic2NvcGVzIjoibmFtZXMifQ=='')\<rparr>,
       subject = JUndefined\<rparr> = Fulfilled (take 1 data_transfers)"
proof -
  let ?h = "js ''Bearer eyJzdWJqZWN0IjoiNDY5ODYzMjE2ODEzIiwic2NvcGVzIjoibmFtZXMifQ==''"
  have e: "localeCompare ignoring_runtime (js ''469863216813'') (js ''469863216813'') = 0"
    by (simp add: ignoring_runtime_def compare_ignoring_def)
  have n: "localeCompare ignoring_runtime (js ''467745863242'') (js ''469863216813'') \<noteq> 0"
    by (simp add: ignoring_runtime_def compare_ignoring_def)
  have l: "7 < length ?h" by simp
  have r: "tokToSubjectFakeToks (drop 7 ?h) = JStr (js ''469863216813'')"
    unfolding drop_bearer by (rule sample_token_subject)
  from sample_subject_results [OF e n l r, of JUndefined]
  have "accounts ignoring_runtime Alternative2
          \<lparr>request = \<lparr>authorization = Some ?h\<rparr>, subject = JUndefined\<rparr> =
          Fulfilled (take 3 data_accounts)"
    and "transfers ignoring_runtime Alternative2
          \<lparr>request = \<lparr>authorization = Some ?h\<rparr>, subject = JUndefined\<rparr> =
          Fulfilled (take 1 data_transfers)"
    by blast+
  with e n l r show ?thesis by blast
qed

section \<open>Introspection\<close>

lemma substring_before:
  assumes "c \<in> set u"
  shows "String_substring u 0 (String_indexOf u c) = takeWhile (\<lambda>x. x \<noteq> c) u"
proof -
  have "length (takeWhile (\<lambda>x. x \<noteq> c) u) \<le> length u"
    by (rule length_takeWhile_le)
  then have "String_substring u 0 (String_indexOf u c) =
      take (length (takeWhile (\<lambda>x. x \<noteq> c) u)) u"
    using assms by (simp add: String_substring_def String_indexOf_def Let_def min_def max_def)
  then show ?thesis
    by (simp add: takeWhile_eq_take [symmetric])
qed

lemma substring_without:
  assumes "c \<notin> set u"
  shows "String_substring u 0 (String_indexOf u c) = []"
  using assms by (simp add: String_substring_def String_indexOf_def Let_def)

text \<open>The last branch of the \<open>if\<close> in \<open>tokToSubjectIntrospection\<close> is never taken.\<close>

lemma introspection_attempt_branches:
  "introspection_attempt rt tok =
     await (getPingFedPromise rt tok) (\<lambda>response_body. settled (
     and_then (JSON_parse response_body) (\<lambda>introspection_response.
     and_then (Get introspection_response Prop_active) (\<lambda>active.
       if \<not> ToBoolean active then Inr (JStr (js ''not authenticated''))
       else
         and_then (Get introspection_response Prop_Username) (\<lambda>username.
           case username of
             JStr u \<Rightarrow> Inr (JStr (String_substring u 0 (String_indexOf u (ord CHR ''@''))))
           | _ \<Rightarrow> Inl TypeError)))))"
proof (cases "getPingFedPromise rt tok")
  case body: (Fulfilled response_body)
  show ?thesis
  proof (cases "JSON_parse response_body")
    case (Inl e)
    with body show ?thesis by (simp add: introspection_attempt_def)
  next
    case parsed: (Inr v)
    show ?thesis
    proof (cases "Get v Prop_active")
      case (Inl e)
      with body parsed show ?thesis by (simp add: introspection_attempt_def)
    next
      case (Inr active)
      with body parsed show ?thesis by (simp add: introspection_attempt_def)
    qed
  qed
qed (simp_all add: introspection_attempt_def)

lemma introspection_response:
  assumes "getPingFedPromise rt tok = Fulfilled response_body"
    and "JSON_parse response_body = Inr v"
    and "Get v Prop_active = Inr active"
  shows "tokToSubjectIntrospection rt tok =
           Fulfilled
             (if \<not> ToBoolean active then JStr (js ''not authenticated'')
              else case Get v Prop_Username of
                     Inr (JStr u) \<Rightarrow> JStr (String_substring u 0 (String_indexOf u (ord CHR ''@'')))
                   | _ \<Rightarrow> JStr (js ''Introspection failed''))"
  using assms
  by (auto simp: tokToSubjectIntrospection_def introspection_attempt_branches
      split: sum.splits jsval.splits)

text \<open>
  C7. When the promise is fulfilled with a body that parses as JSON: if \<open>active\<close> is
  \<open>false\<close> the result is \<open>not authenticated\<close>; if \<open>active\<close> is \<open>true\<close> and \<open>Username\<close> is a
  string with an \<open>@\<close>, the result is the part of \<open>Username\<close> before the first \<open>@\<close>.
\<close>

theorem introspection_active:
  assumes "getPingFedPromise rt tok = Fulfilled response_body"
    and "JSON_parse response_body = Inr v"
  shows "(Get v Prop_active = Inr (JBool False) \<longrightarrow>
            tokToSubjectIntrospection rt tok = Fulfilled (JStr (js ''not authenticated''))) \<and>
         (Get v Prop_active = Inr (JBool True) \<and> Get v Prop_Username = Inr (JStr u) \<and>
          ord CHR ''@'' \<in> set u \<longrightarrow>
            tokToSubjectIntrospection rt tok =
              Fulfilled (JStr (takeWhile (\<lambda>c. c \<noteq> ord CHR ''@'') u)))"
proof (intro conjI impI)
  assume "Get v Prop_active = Inr (JBool False)"
  from introspection_response [OF assms this]
  show "tokToSubjectIntrospection rt tok = Fulfilled (JStr (js ''not authenticated''))" by simp
next
  assume a: "Get v Prop_active = Inr (JBool True) \<and> Get v Prop_Username = Inr (JStr u) \<and>
    ord CHR ''@'' \<in> set u"
  then have "Get v Prop_active = Inr (JBool True)" by simp
  from introspection_response [OF assms this] a
  show "tokToSubjectIntrospection rt tok =
      Fulfilled (JStr (takeWhile (\<lambda>c. c \<noteq> ord CHR ''@'') u))"
    by (simp add: substring_before)
qed

lemma inactive_parsed:
  "JSON_parse (js ''{\"active\": false}'') = Inr (JObj [(js ''active'', JBool False)])"
  by (simp add: JSON_parse_def is_ws_def is_digit_def emit_def prepend_def)

lemma active_parsed:
  "JSON_parse (js ''{\"active\": true, \"Username\": \"abc@example.com\"}'') =
   Inr (JObj [(js ''active'', JBool True), (js ''Username'', JStr (js ''abc@example.com''))])"
  by (simp add: JSON_parse_def is_ws_def is_digit_def emit_def prepend_def)

theorem introspection_active_witness:
  "tokToSubjectIntrospection
     (example_runtime\<lparr>https_request := \<lambda>body. Response_end (js ''{\"active\": false}'')\<rparr>)
     (js ''t'') =
     Fulfilled (JStr (js ''not authenticated'')) \<and>
   tokToSubjectIntrospection
     (example_runtime\<lparr>https_request :=
        \<lambda>body. Response_end (js ''{\"active\": true, \"Username\": \"abc@example.com\"}'')\<rparr>)
     (js ''t'') =
     Fulfilled (JStr (js ''abc''))"
proof
  let ?rt = "example_runtime\<lparr>https_request := \<lambda>body. Response_end (js ''{\"active\": false}'')\<rparr>"
  have p: "getPingFedPromise ?rt (js ''t'') = Fulfilled (js ''{\"active\": false}'')"
    by (simp add: getPingFedPromise_def)
  have g: "Get (JObj [(js ''active'', JBool False)]) Prop_active = Inr (JBool False)"
    by simp
  from introspection_active [OF p inactive_parsed] g
  show "tokToSubjectIntrospection ?rt (js ''t'') = Fulfilled (JStr (js ''not authenticated''))"
    by blast
next
  let ?rt = "example_runtime\<lparr>https_request :=
        \<lambda>body. Response_end (js ''{\"active\": true, \"Username\": \"abc@example.com\"}'')\<rparr>"
  let ?v = "JObj [(js ''active'', JBool True), (js ''Username'', JStr (js ''abc@example.com''))]"
  have p: "getPingFedPromise ?rt (js ''t'') =
      Fulfilled (js ''{\"active\": true, \"Username\": \"abc@example.com\"}'')"
    by (simp add: getPingFedPromise_def)
  have g: "Get ?v Prop_active = Inr (JBool True) \<and>
      Get ?v Prop_Username = Inr (JStr (js ''abc@example.com'')) \<and>
      ord CHR ''@'' \<in> set (js ''abc@example.com'')"
    by simp
  have "takeWhile (\<lambda>c. c \<noteq> ord CHR ''@'') (js ''abc@example.com'') = js ''abc''"
    by simp
  with introspection_active [OF p active_parsed, of "js ''abc@example.com''"] g
  show "tokToSubjectIntrospection ?rt (js ''t'') = Fulfilled (JStr (js ''abc''))"
    by simp
qed

lemma one_lexed: "lex_number (js ''1}'') = Some (1, js ''}'')"
proof -
  have f: "lex_fraction (js ''}'') = Some ([], js ''}'')"
    by (simp add: lex_fraction_def)
  have e: "lex_exponent (js ''}'') = Some (0, js ''}'')"
    by (simp add: lex_exponent_def)
  have d: "digits_value (js ''1'') = 1"
    by (simp add: digits_value_def)
  have s: "scale10 1 0 = 1"
    by (simp add: scale10_def)
  from f e d s show ?thesis
    by (simp add: lex_number_def is_digit_def)
qed

lemma active_one_parsed:
  "JSON_parse (js ''{\"active\": 1}'') = Inr (JObj [(js ''active'', JNum 1)])"
  using one_lexed by (simp add: JSON_parse_def is_ws_def is_digit_def emit_def prepend_def)

lemma not_json_parsed: "JSON_parse (js ''<html>'') = Inl SyntaxError"
  by (simp add: JSON_parse_def is_ws_def is_digit_def)

lemma active_one_user_parsed:
  "JSON_parse (js ''{\"active\": 1, \"Username\": \"abc@example.com\"}'') =
   Inr (JObj [(js ''active'', JNum 1), (js ''Username'', JStr (js ''abc@example.com''))])"
proof -
  have f: "lex_fraction (js '', \"Username\": \"abc@example.com\"}'') =
      Some ([], js '', \"Username\": \"abc@example.com\"}'')"
    by (simp add: lex_fraction_def)
  have e: "lex_exponent (js '', \"Username\": \"abc@example.com\"}'') =
      Some (0, js '', \"Username\": \"abc@example.com\"}'')"
    by (simp add: lex_exponent_def)
  have d: "digits_value (js ''1'') = 1"
    by (simp add: digits_value_def)
  have s: "scale10 1 0 = 1"
    by (simp add: scale10_def)
  from f e d s have "lex_number (js ''1, \"Username\": \"abc@example.com\"}'') =
      Some (1, js '', \"Username\": \"abc@example.com\"}'')"
    by (simp add: lex_number_def is_digit_def)
  then show ?thesis
    by (simp add: JSON_parse_def is_ws_def is_digit_def emit_def prepend_def)
qed

text \<open>
  What holds of the failures. A rejected promise, which is what an \<open>error\<close> event of the
  response gives, and a body that does not parse as JSON both give \<open>Introspection failed\<close>.
  So does the payload \<open>{"active": 1}\<close>, whose \<open>active\<close> is neither \<open>true\<close> nor \<open>false\<close>, but
  only because it has no \<open>Username\<close>: the read of \<open>substring\<close> from \<open>undefined\<close> throws. With a
  \<open>Username\<close> the same \<open>active\<close> gives the user.
\<close>

lemma introspection_rejected:
  assumes "getPingFedPromise rt tok = Rejected e"
  shows "tokToSubjectIntrospection rt tok = Fulfilled (JStr (js ''Introspection failed''))"
  using assms by (simp add: tokToSubjectIntrospection_def introspection_attempt_def)

lemma introspection_response_error:
  assumes "https_request rt (js ''token='' @ tok @ js ''&client_id='' @ client_id) = Response_error"
  shows "tokToSubjectIntrospection rt tok = Fulfilled (JStr (js ''Introspection failed''))"
  using assms by (intro introspection_rejected [of _ _ StreamError]) (simp add: getPingFedPromise_def)

lemma introspection_not_json:
  assumes "getPingFedPromise rt tok = Fulfilled response_body"
    and "JSON_parse response_body = Inl e"
  shows "tokToSubjectIntrospection rt tok = Fulfilled (JStr (js ''Introspection failed''))"
  using assms by (simp add: tokToSubjectIntrospection_def introspection_attempt_def)

lemma introspection_active_one:
  assumes "getPingFedPromise rt tok = Fulfilled (js ''{\"active\": 1}'')"
  shows "tokToSubjectIntrospection rt tok = Fulfilled (JStr (js ''Introspection failed''))"
proof -
  have g: "Get (JObj [(js ''active'', JNum 1)]) Prop_active = Inr (JNum 1)"
    by simp
  from introspection_response [OF assms active_one_parsed g] show ?thesis
    by simp
qed

lemma introspection_active_one_user:
  assumes "getPingFedPromise rt tok =
    Fulfilled (js ''{\"active\": 1, \"Username\": \"abc@example.com\"}'')"
  shows "tokToSubjectIntrospection rt tok = Fulfilled (JStr (js ''abc''))"
proof -
  let ?v = "JObj [(js ''active'', JNum 1), (js ''Username'', JStr (js ''abc@example.com''))]"
  have g: "Get ?v Prop_active = Inr (JNum 1)"
    by simp
  from introspection_response [OF assms active_one_user_parsed g] show ?thesis
    by (simp add: String_substring_def String_indexOf_def)
qed

text \<open>
  When nothing comes from the endpoint, the promise of \<open>getPingFedPromise\<close> stays pending,
  and \<open>tokToSubjectIntrospection\<close> with it: no result, and no failure string.
\<close>

lemma introspection_no_event:
  assumes "https_request rt (js ''token='' @ tok @ js ''&client_id='' @ client_id) = No_event"
  shows "tokToSubjectIntrospection rt tok = Unsettled"
  using assms
  by (simp add: tokToSubjectIntrospection_def introspection_attempt_def getPingFedPromise_def)

text \<open>
  C8. When the call itself fails, as when the endpoint refuses the connection, the request
  emits \<open>error\<close>. Nothing listens to it: the promise is not rejected, the \<open>catch\<close> of
  \<open>tokToSubjectIntrospection\<close> does not run, and the process ends. No \<open>Introspection failed\<close>
  is returned, by \<open>tokToSubjectIntrospection\<close> or to the resolvers under the first
  alternative.
\<close>

theorem introspection_request_error:
  "https_request example_runtime (js ''token=t&client_id=graphql_client'') = Request_error \<and>
   getPingFedPromise example_runtime (js ''t'') = ProcessEnded \<and>
   tokToSubjectIntrospection example_runtime (js ''t'') = ProcessEnded \<and>
   tokToSubjectIntrospection example_runtime (js ''t'') \<noteq>
     Fulfilled (JStr (js ''Introspection failed'')) \<and>
   accounts example_runtime Alternative1
     \<lparr>request = \<lparr>authorization = Some (js ''Bearer t'')\<rparr>, subject = JUndefined\<rparr> = ProcessEnded \<and>
   transfers example_runtime Alternative1
     \<lparr>request = \<lparr>authorization = Some (js ''Bearer t'')\<rparr>, subject = JUndefined\<rparr> = ProcessEnded"
proof -
  have p: "getPingFedPromise example_runtime (js ''t'') = ProcessEnded"
    by (simp add: getPingFedPromise_def example_runtime_def)
  then have t: "tokToSubjectIntrospection example_runtime (js ''t'') = ProcessEnded"
    by (simp add: tokToSubjectIntrospection_def introspection_attempt_def)
  have d: "drop 7 (js ''Bearer t'') = js ''t''" and l: "7 < length (js ''Bearer t'')"
    by simp_all
  have c: "contextToSubject example_runtime Alternative1
      \<lparr>request = \<lparr>authorization = Some (js ''Bearer t'')\<rparr>, subject = JUndefined\<rparr> = ProcessEnded"
    unfolding context_long [OF l] d using t by simp
  have r: "https_request example_runtime (js ''token=t&client_id=graphql_client'') = Request_error"
    by (simp add: example_runtime_def)
  from c have "accounts example_runtime Alternative1
      \<lparr>request = \<lparr>authorization = Some (js ''Bearer t'')\<rparr>, subject = JUndefined\<rparr> = ProcessEnded"
    and "transfers example_runtime Alternative1
      \<lparr>request = \<lparr>authorization = Some (js ''Bearer t'')\<rparr>, subject = JUndefined\<rparr> = ProcessEnded"
    by (simp_all add: accounts_def transfers_def)
  with r p t show ?thesis by simp
qed

section \<open>A token without a subject\<close>

lemma map_of_absent: "k \<notin> fst ` set ms \<Longrightarrow> map_of (rev ms) k = None"
  by (simp add: map_of_eq_None_iff)

lemma a_one_decoded: "Buffer_toString (Buffer_from_base64 (js ''eyJhIjoxfQ=='')) = js ''{\"a\":1}''"
  by (simp add: Buffer_toString_def Buffer_from_base64_def unbase64_def utf8_lead_def
      utf16_units_def)

lemma a_one_parsed: "JSON_parse (js ''{\"a\":1}'') = Inr (JObj [(js ''a'', JNum 1)])"
  using one_lexed by (simp add: JSON_parse_def is_ws_def is_digit_def emit_def prepend_def)

text \<open>\<open>JSON.parse\<close> gives no \<open>undefined\<close>.\<close>

lemma lex_defined: "lex s = Some ts \<Longrightarrow> Scalar JUndefined \<notin> set ts"
proof (induction s arbitrary: ts rule: lex.induct)
  case 1
  then show ?case by simp
next
  case (2 c cs)
  show ?case
  proof (cases "is_ws c")
    case True
    with "2.prems" "2.IH"(1) show ?thesis by simp
  next
    case ws: False
    consider "c = ord CHR ''{''" | "c = ord CHR ''}''" | "c = ord CHR ''[''" | "c = ord CHR '']''"
      | "c = ord CHR '',''" | "c = ord CHR '':''" | "c = 34"
      | "c \<noteq> 34" "c = ord CHR ''-'' \<or> is_digit c"
      | "c \<notin> {ord CHR ''{'', ord CHR ''}'', ord CHR ''['', ord CHR '']'', ord CHR '','', ord CHR '':'', 34}"
        "\<not> (c = ord CHR ''-'' \<or> is_digit c)"
      by blast
    then show ?thesis
    proof cases
      case 1
      with ws "2.prems" "2.IH"(2) show ?thesis
        by (auto simp: is_ws_def emit_def)
    next
      case 2
      with ws "2.prems" "2.IH"(3) show ?thesis
        by (auto simp: is_ws_def emit_def)
    next
      case 3
      with ws "2.prems" "2.IH"(4) show ?thesis
        by (auto simp: is_ws_def emit_def)
    next
      case 4
      with ws "2.prems" "2.IH"(5) show ?thesis
        by (auto simp: is_ws_def emit_def)
    next
      case 5
      with ws "2.prems" "2.IH"(6) show ?thesis
        by (auto simp: is_ws_def emit_def)
    next
      case 6
      with ws "2.prems" "2.IH"(7) show ?thesis
        by (auto simp: is_ws_def emit_def)
    next
      case 7
      with ws "2.prems" "2.IH"(8) show ?thesis
        by (auto simp: is_ws_def emit_def split: option.splits)
    next
      case 8
      then have ne: "c \<noteq> ord CHR ''{''" "c \<noteq> ord CHR ''}''" "c \<noteq> ord CHR ''[''"
        "c \<noteq> ord CHR '']''" "c \<noteq> ord CHR '',''" "c \<noteq> ord CHR '':''"
        by (auto simp: is_digit_def)
      from "2.prems" ws 8 ne obtain r rest where n: "lex_number (c # cs) = Some (r, rest)"
        and e: "emit (Scalar (JNum r)) (lex rest) = Some ts"
        by (auto split: option.splits)
      from e obtain ts' where l: "lex rest = Some ts'" and t: "ts = Scalar (JNum r) # ts'"
        by (auto simp: emit_def)
      from "2.IH"(9) [OF ws ne 8 n refl l] t show ?thesis
        by simp
    next
      case 9
      then have ne: "c \<noteq> ord CHR ''{''" "c \<noteq> ord CHR ''}''" "c \<noteq> ord CHR ''[''"
        "c \<noteq> ord CHR '']''" "c \<noteq> ord CHR '',''" "c \<noteq> ord CHR '':''" "c \<noteq> 34"
        by auto
      note ih = "2.IH"(10-12) [OF ws ne 9(2)]
      have l: "lex (c # cs) =
          (if take 4 (c # cs) = js ''true'' then emit (Scalar (JBool True)) (lex (drop 3 cs))
           else if take 5 (c # cs) = js ''false'' then emit (Scalar (JBool False)) (lex (drop 4 cs))
           else if take 4 (c # cs) = js ''null'' then emit (Scalar JNull) (lex (drop 3 cs))
           else None)"
        using ws ne 9(2) by (simp only: lex.simps if_False)
      show ?thesis
      proof (cases "take 4 (c # cs) = js ''true''")
        case True
        from "2.prems" have "emit (Scalar (JBool True)) (lex (drop 3 cs)) = Some ts"
          unfolding l if_P [OF True] .
        with ih(1) [OF True] show ?thesis
          by (auto simp: emit_def)
      next
        case nt: False
        show ?thesis
        proof (cases "take 5 (c # cs) = js ''false''")
          case True
          from "2.prems" have "emit (Scalar (JBool False)) (lex (drop 4 cs)) = Some ts"
            unfolding l if_not_P [OF nt] if_P [OF True] .
          with ih(2) [OF nt True] show ?thesis
            by (auto simp: emit_def)
        next
          case nf: False
          show ?thesis
          proof (cases "take 4 (c # cs) = js ''null''")
            case True
            from "2.prems" have "emit (Scalar JNull) (lex (drop 3 cs)) = Some ts"
              unfolding l if_not_P [OF nt] if_not_P [OF nf] if_P [OF True] .
            with ih(3) [OF nt nf True] show ?thesis
              by (auto simp: emit_def)
          next
            case False
            from "2.prems" show ?thesis
              unfolding l if_not_P [OF nt] if_not_P [OF nf] if_not_P [OF False] by simp
          qed
        qed
      qed
    qed
  qed
qed

lemma deliver_finished: "deliver v st = Some (Finished w, st') \<Longrightarrow> w = v"
  by (cases "(v, st)" rule: deliver.cases) auto

lemma parse_step_defined:
  assumes "parse_step ex st t = Some (Finished w, st')" and "t \<noteq> Scalar JUndefined"
  shows "w \<noteq> JUndefined"
  using assms by (cases "(ex, st, t)" rule: parse_step.cases) (auto dest: deliver_finished)

lemma parse_tokens_defined:
  assumes "parse_tokens ex st ts = Some v" and "Scalar JUndefined \<notin> set ts"
    and "ex \<noteq> Finished JUndefined"
  shows "v \<noteq> JUndefined"
  using assms
proof (induction ts arbitrary: ex st)
  case Nil
  then show ?case
    by (cases "(ex, st, [] :: token list)" rule: parse_tokens.cases) auto
next
  case (Cons t ts)
  from Cons.prems(1) obtain ex' st' where s: "parse_step ex st t = Some (ex', st')"
    and p: "parse_tokens ex' st' ts = Some v"
    by (auto split: option.splits)
  from Cons.prems(2) have t: "t \<noteq> Scalar JUndefined" and ts: "Scalar JUndefined \<notin> set ts"
    by auto
  have "ex' \<noteq> Finished JUndefined"
    using parse_step_defined [OF _ t] s by blast
  from Cons.IH [OF p ts this] show ?case .
qed

lemma JSON_parse_defined:
  assumes "JSON_parse s = Inr v"
  shows "v \<noteq> JUndefined"
proof -
  from assms obtain ts where l: "lex s = Some ts"
    and p: "parse_tokens (Value False) [] ts = Some v"
    by (auto simp: JSON_parse_def split: option.splits)
  from parse_tokens_defined [OF p lex_defined [OF l]] show ?thesis
    by simp
qed

lemma null_decoded: "Buffer_toString (Buffer_from_base64 (js ''bnVsbA=='')) = js ''null''"
  by (simp add: Buffer_toString_def Buffer_from_base64_def unbase64_def utf8_lead_def
      utf16_units_def)

lemma null_parsed: "JSON_parse (js ''null'') = Inr JNull"
  by (simp add: JSON_parse_def is_ws_def is_digit_def emit_def)

text \<open>
  C10 as the specification has it: when the remainder of the credential decodes to valid
  JSON without a field \<open>subject\<close>, \<open>tokToSubjectFakeToks\<close> returns \<open>undefined\<close>. The remainder
  \<open>bnVsbA==\<close> decodes to the JSON text \<open>null\<close>, which has no field \<open>subject\<close>; the read of a
  property of \<open>null\<close> throws inside the \<open>try\<close> block, and the result is the string
  \<open>Fake token failure\<close>.
\<close>

theorem null_token_counterexample:
  "Buffer_toString (Buffer_from_base64 (js ''bnVsbA=='')) = js ''null'' \<and>
   JSON_parse (js ''null'') = Inr JNull \<and>
   tokToSubjectFakeToks (js ''bnVsbA=='') = JStr (js ''Fake token failure'') \<and>
   tokToSubjectFakeToks (js ''bnVsbA=='') \<noteq> JUndefined \<and>
   contextToSubject example_runtime Alternative2
     \<lparr>request = \<lparr>authorization = Some (js ''Bearer bnVsbA=='')\<rparr>, subject = JUndefined\<rparr> =
     Fulfilled \<lparr>request = \<lparr>authorization = Some (js ''Bearer bnVsbA=='')\<rparr>,
                subject = JStr (js ''Fake token failure'')\<rparr>"
proof -
  have f: "tokToSubjectFakeToks (js ''bnVsbA=='') = JStr (js ''Fake token failure'')"
    using null_decoded null_parsed by (simp add: tokToSubjectFakeToks_def)
  have d: "drop 7 (js ''Bearer bnVsbA=='') = js ''bnVsbA==''" and l: "7 < length (js ''Bearer bnVsbA=='')"
    by simp_all
  have c: "contextToSubject example_runtime Alternative2
     \<lparr>request = \<lparr>authorization = Some (js ''Bearer bnVsbA=='')\<rparr>, subject = JUndefined\<rparr> =
     Fulfilled \<lparr>request = \<lparr>authorization = Some (js ''Bearer bnVsbA=='')\<rparr>,
                subject = JStr (js ''Fake token failure'')\<rparr>"
    unfolding context_long [OF l] d using f by simp
  from null_decoded null_parsed f c show ?thesis by simp
qed

text \<open>
  C10, amended. When the remainder of the credential decodes to valid JSON other than
  \<open>null\<close> that has no member \<open>subject\<close>, be it an object without that member, such as the
  encoding \<open>eyJhIjoxfQ==\<close> of \<open>{"a":1}\<close>, or a number, a string, a truth value or an array,
  \<open>tokToSubjectFakeToks\<close> returns \<open>undefined\<close>, which is no string; \<open>contextToSubject\<close> writes
  it into the context as the subject.
\<close>

theorem fake_token_without_subject:
  assumes "JSON_parse (Buffer_toString (Buffer_from_base64 tok)) = Inr v"
    and "v \<noteq> JNull"
    and "\<forall>ms. v = JObj ms \<longrightarrow> js ''subject'' \<notin> fst ` set ms"
  shows "tokToSubjectFakeToks tok = JUndefined \<and>
         JUndefined \<notin> range JStr \<and>
         (7 < length h \<and> drop 7 h = tok \<longrightarrow>
            contextToSubject rt Alternative2
              \<lparr>request = \<lparr>authorization = Some h\<rparr>, subject = su\<rparr> =
            Fulfilled \<lparr>request = \<lparr>authorization = Some h\<rparr>, subject = JUndefined\<rparr>)"
proof -
  have "Get v Prop_subject = Inr JUndefined"
    using JSON_parse_defined [OF assms(1)] assms(2,3)
    by (cases v) (simp_all add: map_of_absent)
  with assms(1) have u: "tokToSubjectFakeToks tok = JUndefined"
    by (simp add: tokToSubjectFakeToks_def)
  then show ?thesis
    by (auto simp: context_long)
qed

theorem fake_token_without_subject_witness:
  "JSON_parse (Buffer_toString (Buffer_from_base64 (js ''eyJhIjoxfQ==''))) =
     Inr (JObj [(js ''a'', JNum 1)]) \<and>
   JObj [(js ''a'', JNum 1)] \<noteq> JNull \<and>
   js ''subject'' \<notin> fst ` set [(js ''a'', JNum 1)] \<and>
   tokToSubjectFakeToks (js ''eyJhIjoxfQ=='') = JUndefined \<and>
   7 < length (js ''Bearer eyJhIjoxfQ=='') \<and>
   drop 7 (js ''Bearer eyJhIjoxfQ=='') = js ''eyJhIjoxfQ=='' \<and>
   contextToSubject example_runtime Alternative2
     \<lparr>request = \<lparr>authorization = Some (js ''Bearer eyJhIjoxfQ=='')\<rparr>, subject = JUndefined\<rparr> =
     Fulfilled \<lparr>request = \<lparr>authorization = Some (js ''Bearer eyJhIjoxfQ=='')\<rparr>,
                subject = JUndefined\<rparr>"
proof -
  have p: "JSON_parse (Buffer_toString (Buffer_from_base64 (js ''eyJhIjoxfQ==''))) =
      Inr (JObj [(js ''a'', JNum 1)])"
    unfolding a_one_decoded by (rule a_one_parsed)
  have n: "JObj [(js ''a'', JNum 1)] \<noteq> JNull"
    by simp
  have k: "js ''subject'' \<notin> fst ` set [(js ''a'', JNum 1)]"
    by simp
  then have k': "\<forall>ms. JObj [(js ''a'', JNum 1)] = JObj ms \<longrightarrow> js ''subject'' \<notin> fst ` set ms"
    by simp
  have l: "7 < length (js ''Bearer eyJhIjoxfQ=='') \<and>
      drop 7 (js ''Bearer eyJhIjoxfQ=='') = js ''eyJhIjoxfQ==''"
    by simp
  from fake_token_without_subject [OF p n k', of "js ''Bearer eyJhIjoxfQ==''" example_runtime JUndefined] l
  have "tokToSubjectFakeToks (js ''eyJhIjoxfQ=='') = JUndefined"
    and "contextToSubject example_runtime Alternative2
      \<lparr>request = \<lparr>authorization = Some (js ''Bearer eyJhIjoxfQ=='')\<rparr>, subject = JUndefined\<rparr> =
      Fulfilled \<lparr>request = \<lparr>authorization = Some (js ''Bearer eyJhIjoxfQ=='')\<rparr>,
                 subject = JUndefined\<rparr>"
    by blast+
  with p n k l show ?thesis by blast
qed

section \<open>The round trip of a token\<close>

lemma unbase64_char: "v < 64 \<Longrightarrow> unbase64 (base64_char v) = Some v"
  unfolding unbase64_def base64_char_def by (simp split: if_splits) arith

lemma base64_char_not_pad: "base64_char v \<noteq> ord CHR ''=''"
  unfolding base64_char_def by (simp split: if_splits) arith

lemma base64_char_byte: "base64_char v mod 256 = base64_char v"
  unfolding base64_char_def by simp

lemma base64_sextets:
  fixes a b c :: nat
  assumes "b < 256" and "c < 256"
  shows "(a div 4) * 4 + ((a mod 4) * 16 + b div 16) div 16 = a"
    and "(((a mod 4) * 16 + b div 16) mod 16) * 16 + ((b mod 16) * 4 + c div 64) div 4 = b"
    and "(((b mod 16) * 4 + c div 64) mod 4) * 64 + c mod 64 = c"
proof -
  have b: "b div 16 < 16" using assms(1) by simp
  have c: "c div 64 < 4" using assms(2) by simp
  from b show "(a div 4) * 4 + ((a mod 4) * 16 + b div 16) div 16 = a"
    by simp
  from b c show "(((a mod 4) * 16 + b div 16) mod 16) * 16 + ((b mod 16) * 4 + c div 64) div 4 = b"
    by simp
  from c show "(((b mod 16) * 4 + c div 64) mod 4) * 64 + c mod 64 = c"
    by simp
qed

lemma base64_sextets_small:
  fixes a b c :: nat
  assumes "a < 256" and "b < 256" and "c < 256"
  shows "a div 4 < 64" and "(a mod 4) * 16 + b div 16 < 64" and "(b mod 16) * 4 + c div 64 < 64"
    and "c mod 64 < 64"
proof -
  show "a div 4 < 64" using assms(1) by simp
  have "a mod 4 < 4" and "b div 16 < 16" using assms(2) by simp_all
  then show "(a mod 4) * 16 + b div 16 < 64" by linarith
  have "b mod 16 < 16" and "c div 64 < 4" using assms(3) by simp_all
  then show "(b mod 16) * 4 + c div 64 < 64" by linarith
  show "c mod 64 < 64" by simp
qed

lemma base64_round_trip:
  "\<forall>b\<in>set bytes. b < 256 \<Longrightarrow> Buffer_from_base64 (base64_encode bytes) = bytes"
proof (induction bytes rule: base64_encode.induct)
  case (1 a b c rest)
  then have r: "base64_groups (List.map_filter unbase64
      (takeWhile (\<lambda>c. c \<noteq> ord CHR ''='') (map (\<lambda>c. c mod 256) (base64_encode rest)))) = rest"
    by (simp add: Buffer_from_base64_def)
  have lt: "a < 256" "b < 256" "c < 256" using 1 by simp_all
  note v = base64_sextets_small [OF lt]
  note g = base64_sextets [OF lt(2,3)]
  show ?case
    using r g
    by (simp add: Buffer_from_base64_def base64_char_byte base64_char_not_pad [simplified]
        List.map_filter_simps
        unbase64_char [OF v(1)] unbase64_char [OF v(2)] unbase64_char [OF v(3)]
        unbase64_char [OF v(4)])
next
  case (2 a b)
  have lt: "a < 256" "b < 256" "(0::nat) < 256" using 2 by simp_all
  note v = base64_sextets_small [OF lt]
  note g = base64_sextets [OF lt(2,3)]
  show ?case
    using g v
    by (simp add: Buffer_from_base64_def base64_char_byte base64_char_not_pad [simplified]
        List.map_filter_simps
        unbase64_char)
next
  case (3 a)
  have lt: "a < 256" "(0::nat) < 256" using 3 by simp_all
  note v = base64_sextets_small [OF lt(1) lt(2) lt(2)]
  note g = base64_sextets [OF lt(2) lt(2)]
  show ?case
    using g v
    by (simp add: Buffer_from_base64_def base64_char_byte base64_char_not_pad [simplified]
        List.map_filter_simps
        unbase64_char)
next
  case 4
  show ?case by (simp add: Buffer_from_base64_def List.map_filter_simps)
qed

lemma mod_shift: "x < n \<Longrightarrow> (k * n + x) mod n = (x::nat)"
  by simp

lemma continuation_bits: "r < 64 \<Longrightarrow> (128 + r) mod 64 = (r::nat)"
  using mod_shift [of r 64 2] by simp

lemma utf8_lead_two:
  assumes "2 \<le> q" and "q < 32"
  shows "utf8_lead (0xC0 + q) = ([], Pending 1 q 0x80 0xBF)"
  using assms mod_shift [of q 32 6] by (simp add: utf8_lead_def)

lemma utf8_lead_three:
  assumes "a < 16"
  shows "utf8_lead (0xE0 + a) =
           ([], Pending 2 a (if a = 0 then 0xA0 else 0x80) (if a = 13 then 0x9F else 0xBF))"
  using assms mod_shift [of a 16 14] by (simp add: utf8_lead_def)

lemma utf8_lead_four:
  assumes "a < 5"
  shows "utf8_lead (0xF0 + a) =
           ([], Pending 3 a (if a = 0 then 0x90 else 0x80) (if a = 4 then 0x8F else 0xBF))"
proof -
  have "a < 8" using assms by simp
  from mod_shift [OF this, of 30] assms show ?thesis
    by (simp add: utf8_lead_def)
qed

lemma utf8_two:
  assumes "2 \<le> q" and "q < 32" and "r < 64"
  shows "utf8_decode Start ((0xC0 + q) # (0x80 + r) # rest) = (q * 64 + r) # utf8_decode Start rest"
  using assms by (simp add: utf8_lead_two continuation_bits)

lemma utf8_three:
  assumes "a < 16" and "b < 64" and "c < 64"
    and "a = 0 \<Longrightarrow> 32 \<le> b" and "a = 13 \<Longrightarrow> b < 32"
  shows "utf8_decode Start ((0xE0 + a) # (0x80 + b) # (0x80 + c) # rest) =
           ((a * 64 + b) * 64 + c) # utf8_decode Start rest"
  using assms by (auto simp: utf8_lead_three continuation_bits)

lemma utf8_four:
  assumes "a < 5" and "b < 64" and "c < 64" and "d < 64"
    and "a = 0 \<Longrightarrow> 16 \<le> b" and "a = 4 \<Longrightarrow> b < 16"
  shows "utf8_decode Start ((0xF0 + a) # (0x80 + b) # (0x80 + c) # (0x80 + d) # rest) =
           (((a * 64 + b) * 64 + c) * 64 + d) # utf8_decode Start rest"
  using assms by (auto simp: utf8_lead_four continuation_bits)

text \<open>The bytes of a code point, by the number of its six-bit groups.\<close>

lemma utf8_bytes_two:
  assumes "0x80 \<le> cp" and "cp < 0x800"
  shows "\<exists>q r. utf8_bytes cp = [0xC0 + q, 0x80 + r] \<and> cp = q * 64 + r \<and>
           2 \<le> q \<and> q < 32 \<and> r < 64"
proof (intro exI conjI)
  show "utf8_bytes cp = [0xC0 + cp div 64, 0x80 + cp mod 64]"
    using assms by (simp add: utf8_bytes_def)
  show "cp = (cp div 64) * 64 + cp mod 64" by simp
  show "2 \<le> cp div 64" using assms by simp
  show "cp div 64 < 32" using assms by simp
  show "cp mod 64 < 64" by simp
qed

lemma utf8_bytes_three:
  assumes "0x800 \<le> cp" and "cp < 0x10000" and "scalar cp"
  shows "\<exists>a b c. utf8_bytes cp = [0xE0 + a, 0x80 + b, 0x80 + c] \<and>
           cp = (a * 64 + b) * 64 + c \<and> a < 16 \<and> b < 64 \<and> c < 64 \<and>
           (a = 0 \<longrightarrow> 32 \<le> b) \<and> (a = 13 \<longrightarrow> b < 32)"
proof -
  define k where "k = cp div 64"
  define c where "c = cp mod 64"
  define a where "a = k div 64"
  define b where "b = k mod 64"
  have cp: "cp = k * 64 + c" and c: "c < 64"
    by (simp_all add: k_def c_def)
  have k: "k = a * 64 + b" and b: "b < 64"
    by (simp_all add: a_def b_def)
  have "cp div 4096 = cp div (64 * 64)" by simp
  also have "\<dots> = a" unfolding a_def k_def by (rule div_mult2_eq)
  finally have a4096: "cp div 4096 = a" .
  have bytes: "utf8_bytes cp = [0xE0 + a, 0x80 + b, 0x80 + c]"
    using assms(1,2) a4096 by (simp add: utf8_bytes_def b_def k_def c_def)
  have a: "a < 16" using assms(2) cp k c b by linarith
  have lo: "a = 0 \<longrightarrow> 32 \<le> b" using assms(1) cp k c b by linarith
  have "cp < 0xD800 \<or> 0xE000 \<le> cp" using assms(3) by (simp add: scalar_def)
  then have hi: "a = 13 \<longrightarrow> b < 32" using cp k c b by linarith
  from bytes cp k a b c lo hi show ?thesis by blast
qed

lemma utf8_bytes_four:
  assumes "0x10000 \<le> cp" and "cp < 0x110000"
  shows "\<exists>a b c d. utf8_bytes cp = [0xF0 + a, 0x80 + b, 0x80 + c, 0x80 + d] \<and>
           cp = ((a * 64 + b) * 64 + c) * 64 + d \<and> a < 5 \<and> b < 64 \<and> c < 64 \<and> d < 64 \<and>
           (a = 0 \<longrightarrow> 16 \<le> b) \<and> (a = 4 \<longrightarrow> b < 16)"
proof -
  define k where "k = cp div 64"
  define d where "d = cp mod 64"
  define j where "j = k div 64"
  define c where "c = k mod 64"
  define a where "a = j div 64"
  define b where "b = j mod 64"
  have cp: "cp = k * 64 + d" and d: "d < 64"
    by (simp_all add: k_def d_def)
  have k: "k = j * 64 + c" and c: "c < 64"
    by (simp_all add: j_def c_def)
  have j: "j = a * 64 + b" and b: "b < 64"
    by (simp_all add: a_def b_def)
  have "cp div 4096 = cp div (64 * 64)" by simp
  also have "\<dots> = j" unfolding j_def k_def by (rule div_mult2_eq)
  finally have j4096: "cp div 4096 = j" .
  have "cp div 262144 = cp div (4096 * 64)" by simp
  also have "\<dots> = a" unfolding a_def j4096 [symmetric] by (rule div_mult2_eq)
  finally have a262144: "cp div 262144 = a" .
  have bytes: "utf8_bytes cp = [0xF0 + a, 0x80 + b, 0x80 + c, 0x80 + d]"
    using assms(1) a262144 j4096 by (simp add: utf8_bytes_def b_def c_def d_def k_def)
  have a: "a < 5" using assms(2) cp k j b c d by linarith
  have lo: "a = 0 \<longrightarrow> 16 \<le> b" using assms(1) cp k j b c d by linarith
  have hi: "a = 4 \<longrightarrow> b < 16" using assms(2) cp k j b c d by linarith
  from bytes cp k j a b c d lo hi show ?thesis by blast
qed

lemma utf8_code_point:
  assumes "scalar cp"
  shows "utf8_decode Start (utf8_bytes cp @ rest) = cp # utf8_decode Start rest"
    and "\<forall>b\<in>set (utf8_bytes cp). b < 256"
proof -
  have "cp < 0x110000" using assms by (simp add: scalar_def)
  then consider "cp < 0x80" | "0x80 \<le> cp" "cp < 0x800" | "0x800 \<le> cp" "cp < 0x10000"
    | "0x10000 \<le> cp" "cp < 0x110000"
    by atomize_elim linarith
  then have "utf8_decode Start (utf8_bytes cp @ rest) = cp # utf8_decode Start rest \<and>
      (\<forall>b\<in>set (utf8_bytes cp). b < 256)"
  proof cases
    case 1
    then show ?thesis by (simp add: utf8_bytes_def utf8_lead_def)
  next
    case 2
    from utf8_bytes_two [OF 2] obtain q r where
      "utf8_bytes cp = [0xC0 + q, 0x80 + r]" "cp = q * 64 + r" "2 \<le> q" "q < 32" "r < 64"
      by blast
    then show ?thesis using utf8_two [of q r rest] by simp
  next
    case 3
    from utf8_bytes_three [OF 3 assms] obtain a b c where
      "utf8_bytes cp = [0xE0 + a, 0x80 + b, 0x80 + c]" "cp = (a * 64 + b) * 64 + c"
      "a < 16" "b < 64" "c < 64" "a = 0 \<longrightarrow> 32 \<le> b" "a = 13 \<longrightarrow> b < 32"
      by blast
    then show ?thesis using utf8_three [of a b c rest] by simp
  next
    case 4
    from utf8_bytes_four [OF 4] obtain a b c d where
      "utf8_bytes cp = [0xF0 + a, 0x80 + b, 0x80 + c, 0x80 + d]"
      "cp = ((a * 64 + b) * 64 + c) * 64 + d"
      "a < 5" "b < 64" "c < 64" "d < 64" "a = 0 \<longrightarrow> 16 \<le> b" "a = 4 \<longrightarrow> b < 16"
      by blast
    then show ?thesis using utf8_four [of a b c d rest] by simp
  qed
  then show "utf8_decode Start (utf8_bytes cp @ rest) = cp # utf8_decode Start rest"
    and "\<forall>b\<in>set (utf8_bytes cp). b < 256"
    by simp_all
qed

lemma utf8_round_trip:
  "\<forall>cp\<in>set cps. scalar cp \<Longrightarrow> utf8_decode Start (concat (map utf8_bytes cps)) = cps"
  by (induction cps) (simp_all add: utf8_code_point(1))

lemma utf8_bytes_small:
  "\<forall>cp\<in>set cps. scalar cp \<Longrightarrow> \<forall>b\<in>set (concat (map utf8_bytes cps)). b < 256"
  using utf8_code_point(2) by auto

lemma paired_cons: "\<not> is_high c \<Longrightarrow> \<not> is_low c \<Longrightarrow> paired (c # t) = paired t"
  by (cases t) simp_all

lemma paired_prefix:
  "\<forall>c\<in>set p. \<not> is_high c \<and> \<not> is_low c \<Longrightarrow> paired (p @ t) = paired t"
  by (induction p) (simp_all add: paired_cons)

lemma paired_append: "paired s \<Longrightarrow> paired t \<Longrightarrow> paired (s @ t)"
proof (induction s rule: paired.induct)
  case 1
  then show ?case by simp
next
  case (2 c)
  then show ?case by (simp add: paired_cons)
next
  case (3 c d ds)
  show ?case
  proof (cases "is_high c \<and> is_low d")
    case True
    with 3 show ?thesis by simp
  next
    case False
    with 3 have "\<not> is_high c" "\<not> is_low c" "paired ((d # ds) @ t)" by simp_all
    then show ?thesis using paired_cons [of c "(d # ds) @ t"] by simp
  qed
qed

lemma surrogate_pair:
  assumes "is_high c" and "is_low d"
  shows "utf16_units (0x10000 + (c - 0xD800) * 0x400 + (d - 0xDC00)) = [c, d]"
    and "scalar (0x10000 + (c - 0xD800) * 0x400 + (d - 0xDC00))"
proof -
  define h where "h = c - 0xD800"
  define l where "l = d - 0xDC00"
  have h: "h < 0x400" "c = 0xD800 + h" using assms(1) unfolding is_high_def h_def by linarith+
  have l: "l < 0x400" "d = 0xDC00 + l" using assms(2) unfolding is_low_def l_def by linarith+
  have "(h * 0x400 + l) div 0x400 = h" "(h * 0x400 + l) mod 0x400 = l"
    using l(1) by simp_all
  then show "utf16_units (0x10000 + (c - 0xD800) * 0x400 + (d - 0xDC00)) = [c, d]"
    using h(2) l(2) by (simp add: utf16_units_def h_def [symmetric] l_def [symmetric])
  have "h * 0x400 + l < 0x100000" using h(1) l(1) by linarith
  then show "scalar (0x10000 + (c - 0xD800) * 0x400 + (d - 0xDC00))"
    by (simp add: scalar_def h_def [symmetric] l_def [symmetric])
qed

lemma single_unit:
  assumes "\<not> is_high c" and "\<not> is_low c" and "c < 65536"
  shows "utf16_units (lone c) = [c]" and "scalar (lone c)"
  using assms by (auto simp: lone_def utf16_units_def scalar_def is_high_def is_low_def)

lemma utf16_round_trip:
  assumes "paired s" and "\<forall>c\<in>set s. c < 65536"
  shows "concat (map utf16_units (utf16_code_points s)) = s \<and>
         (\<forall>cp\<in>set (utf16_code_points s). scalar cp)"
  using assms
proof (induction s rule: paired.induct)
  case 1
  then show ?case by simp
next
  case (2 c)
  then show ?case by (simp add: single_unit)
next
  case (3 c d ds)
  show ?case
  proof (cases "is_high c \<and> is_low d")
    case True
    with 3 show ?thesis by (simp add: surrogate_pair)
  next
    case False
    with 3 show ?thesis by (simp add: single_unit)
  qed
qed

lemma buffer_round_trip:
  assumes "paired s" and "\<forall>c\<in>set s. c < 65536"
  shows "Buffer_toString (Buffer_from_base64 (base64_encode (Buffer_from_utf8 s))) = s"
proof -
  from utf16_round_trip [OF assms]
  have u: "concat (map utf16_units (utf16_code_points s)) = s"
    and sc: "\<forall>cp\<in>set (utf16_code_points s). scalar cp"
    by simp_all
  have "\<forall>b\<in>set (Buffer_from_utf8 s). b < 256"
    unfolding Buffer_from_utf8_def using sc by (rule utf8_bytes_small)
  then have "Buffer_from_base64 (base64_encode (Buffer_from_utf8 s)) = Buffer_from_utf8 s"
    by (rule base64_round_trip)
  then show ?thesis
    using u utf8_round_trip [OF sc] by (simp add: Buffer_toString_def Buffer_from_utf8_def)
qed

lemma hex_value_digit: "d < 16 \<Longrightarrow> hex_value (hex_digit d) = Some d"
  unfolding hex_value_def hex_digit_def by (simp split: if_splits)

lemma hex_digit_ascii: "d < 16 \<Longrightarrow> hex_digit d < 128"
  by (simp add: hex_digit_def)

lemma hex_four:
  fixes c :: nat
  assumes "c < 65536"
  shows "(c div 4096) * 4096 + ((c div 256) mod 16) * 256 + ((c div 16) mod 16) * 16 + c mod 16 = c"
    and "c div 4096 < 16"
proof -
  define k where "k = c div 16"
  define j where "j = k div 16"
  define i where "i = j div 16"
  have c: "c = k * 16 + c mod 16" by (simp add: k_def)
  have k: "k = j * 16 + k mod 16" by (simp add: j_def)
  have j: "j = i * 16 + j mod 16" by (simp add: i_def)
  have "c div 256 = c div (16 * 16)" by simp
  also have "\<dots> = j" unfolding j_def k_def by (rule div_mult2_eq)
  finally have j256: "c div 256 = j" .
  have "c div 4096 = c div (256 * 16)" by simp
  also have "\<dots> = i" unfolding i_def j256 [symmetric] by (rule div_mult2_eq)
  finally have i4096: "c div 4096 = i" .
  show "(c div 4096) * 4096 + ((c div 256) mod 16) * 256 + ((c div 16) mod 16) * 16 + c mod 16 = c"
    unfolding i4096 j256 k_def [symmetric] using c k j by linarith
  show "c div 4096 < 16" using assms by simp
qed

lemma lex_unicode_escape:
  assumes "c < 65536"
  shows "lex_string (unicode_escape c @ t) = prepend c (lex_string t)"
proof -
  have d: "c div 4096 < 16" "(c div 256) mod 16 < 16" "(c div 16) mod 16 < 16" "c mod 16 < 16"
    using hex_four(2) [OF assms] by simp_all
  show ?thesis
    using hex_four(1) [OF assms]
    by (simp add: unicode_escape_def hex_value_digit [OF d(1)] hex_value_digit [OF d(2)]
        hex_value_digit [OF d(3)] hex_value_digit [OF d(4)])
qed

lemma lex_quote_unit:
  assumes "c < 65536"
  shows "lex_string (quote_unit c @ t) = prepend c (lex_string t)"
proof (cases "c < 32 \<or> is_high c \<or> is_low c")
  case True
  then show ?thesis
    using lex_unicode_escape [OF assms, of t]
    by (auto simp: quote_unit_def unescape_def is_high_def is_low_def)
next
  case False
  then show ?thesis
    by (auto simp: quote_unit_def unescape_def)
qed

lemma lex_surrogate:
  assumes "is_high c \<or> is_low c"
  shows "lex_string (c # t) = prepend c (lex_string t)"
  using assms by (auto simp: is_high_def is_low_def)

lemma prepend_Some: "prepend c (Some (s, rest)) = Some (c # s, rest)"
  by (simp add: prepend_def)

lemma lex_quoted:
  assumes "\<forall>c\<in>set X. c < 65536"
  shows "lex_string (JSON_quote_units X @ 34 # rest) = Some (X, rest)"
  using assms
proof (induction X rule: JSON_quote_units.induct)
  case 1
  then show ?case by simp
next
  case (2 c)
  then show ?case by (simp add: lex_quote_unit prepend_Some)
next
  case (3 c d ds)
  show ?case
  proof (cases "is_high c \<and> is_low d")
    case True
    with 3 have ih: "lex_string (JSON_quote_units ds @ 34 # rest) = Some (ds, rest)" by simp
    have e: "JSON_quote_units (c # d # ds) @ 34 # rest = c # d # JSON_quote_units ds @ 34 # rest"
      using True by simp
    have h: "lex_string (c # t) = prepend c (lex_string t)" for t
      using True by (intro lex_surrogate) simp
    have l: "lex_string (d # t) = prepend d (lex_string t)" for t
      using True by (intro lex_surrogate) simp
    show ?thesis
      unfolding e h l ih prepend_Some ..
  next
    case False
    with 3 have ih: "lex_string (JSON_quote_units (d # ds) @ 34 # rest) = Some (d # ds, rest)"
      by simp
    have e: "JSON_quote_units (c # d # ds) @ 34 # rest =
        quote_unit c @ JSON_quote_units (d # ds) @ 34 # rest"
      by (simp only: JSON_quote_units.simps False if_False append_assoc)
    have c: "c < 65536" using 3(3) by simp
    show ?thesis
      unfolding e lex_quote_unit [OF c] ih prepend_Some ..
  qed
qed

lemma unicode_escape_plain:
  assumes "c < 65536"
  shows "\<forall>u\<in>set (unicode_escape c). u < 128"
proof -
  have "c div 4096 < 16" "(c div 256) mod 16 < 16" "(c div 16) mod 16 < 16" "c mod 16 < 16"
    using hex_four(2) [OF assms] by simp_all
  then show ?thesis
    by (simp add: unicode_escape_def hex_digit_ascii)
qed

lemma quote_unit_plain:
  assumes "c < 65536"
  shows "\<forall>u\<in>set (quote_unit c). \<not> is_high u \<and> \<not> is_low u \<and> u < 65536"
proof (cases "c < 32 \<or> is_high c \<or> is_low c")
  case True
  have "\<not> is_high u \<and> \<not> is_low u \<and> u < 65536" if "u < 128" for u
    using that by (simp add: is_high_def is_low_def)
  with unicode_escape_plain [OF assms] have "\<forall>u\<in>set (unicode_escape c).
      \<not> is_high u \<and> \<not> is_low u \<and> u < 65536"
    by blast
  with True show ?thesis
    by (auto simp: quote_unit_def is_high_def is_low_def)
next
  case False
  with assms show ?thesis
    by (auto simp: quote_unit_def is_high_def is_low_def)
qed

lemma quoted_paired:
  assumes "\<forall>c\<in>set X. c < 65536"
  shows "paired (JSON_quote_units X) \<and> (\<forall>u\<in>set (JSON_quote_units X). u < 65536)"
  using assms
proof (induction X rule: JSON_quote_units.induct)
  case 1
  then show ?case by simp
next
  case (2 c)
  then have "c < 65536" by simp
  then have p: "\<forall>u\<in>set (quote_unit c). \<not> is_high u \<and> \<not> is_low u \<and> u < 65536"
    by (rule quote_unit_plain)
  then have "paired (quote_unit c @ [])"
    by (subst paired_prefix) auto
  with p show ?case by simp
next
  case (3 c d ds)
  show ?case
  proof (cases "is_high c \<and> is_low d")
    case True
    with 3 show ?thesis by simp
  next
    case False
    with 3 have ih: "paired (JSON_quote_units (d # ds))"
      "\<forall>u\<in>set (JSON_quote_units (d # ds)). u < 65536"
      by simp_all
    have "c < 65536" using 3(3) by simp
    then have p: "\<forall>u\<in>set (quote_unit c). \<not> is_high u \<and> \<not> is_low u \<and> u < 65536"
      by (rule quote_unit_plain)
    then have "paired (quote_unit c @ JSON_quote_units (d # ds))"
      using ih(1) by (subst paired_prefix) auto
    moreover have "JSON_quote_units (c # d # ds) = quote_unit c @ JSON_quote_units (d # ds)"
      by (simp only: JSON_quote_units.simps False if_False)
    ultimately show ?thesis
      using p ih(2) by auto
  qed
qed

lemma subject_text_paired:
  assumes "\<forall>c\<in>set X. c < 65536"
  shows "paired (JSON_stringify_subject X)"
    and "\<forall>u\<in>set (JSON_stringify_subject X). u < 65536"
proof -
  from quoted_paired [OF assms] have q: "paired (JSON_quote_units X)"
    and b: "\<forall>u\<in>set (JSON_quote_units X). u < 65536"
    by simp_all
  have "paired (js ''\"}'')"
    by (simp add: is_high_def is_low_def)
  with q have "paired (JSON_quote_units X @ js ''\"}'')"
    by (rule paired_append)
  moreover have "\<forall>c\<in>set (js ''{\"subject\":\"''). \<not> is_high c \<and> \<not> is_low c"
    by (simp add: is_high_def is_low_def)
  ultimately show "paired (JSON_stringify_subject X)"
    unfolding JSON_stringify_subject_def by (subst paired_prefix)
  show "\<forall>u\<in>set (JSON_stringify_subject X). u < 65536"
    using b by (auto simp: JSON_stringify_subject_def)
qed

lemma subject_text_parsed:
  assumes "\<forall>c\<in>set X. c < 65536"
  shows "JSON_parse (JSON_stringify_subject X) = Inr (JObj [(js ''subject'', JStr X)])"
  using lex_quoted [OF assms, of "js ''}''"]
  by (simp add: JSON_parse_def JSON_stringify_subject_def is_ws_def is_digit_def emit_def
      prepend_def)

lemma fake_token_not_empty: "fake_token X \<noteq> []"
proof -
  obtain t where "JSON_stringify_subject X = 123 # 34 # t"
    by (simp add: JSON_stringify_subject_def)
  then obtain bs where "Buffer_from_utf8 (JSON_stringify_subject X) = 123 # bs"
    by (simp add: Buffer_from_utf8_def is_high_def is_low_def lone_def utf8_bytes_def)
  then show ?thesis
    by (cases bs rule: base64_encode.cases) (simp_all add: fake_token_def)
qed

text \<open>
  C9. For every string \<open>X\<close> (every sequence of code units below 65536, empty or not), the
  base64 encoding of the UTF-8 bytes of the JSON text of the object \<open>{"subject": X}\<close> is a
  token that \<open>tokToSubjectFakeToks\<close> resolves to \<open>X\<close>, and so does \<open>contextToSubject\<close>
  with the local strategy from the header \<open>Bearer\<close> followed by the token.
\<close>

theorem fake_token_round_trip:
  assumes "\<forall>c\<in>set X. c < 65536"
  shows "tokToSubjectFakeToks (fake_token X) = JStr X \<and>
         contextToSubject rt Alternative2
           \<lparr>request = \<lparr>authorization = Some (js ''Bearer '' @ fake_token X)\<rparr>, subject = su\<rparr> =
           Fulfilled \<lparr>request = \<lparr>authorization = Some (js ''Bearer '' @ fake_token X)\<rparr>,
                      subject = JStr X\<rparr>"
proof -
  have d: "Buffer_toString (Buffer_from_base64 (fake_token X)) = JSON_stringify_subject X"
    unfolding fake_token_def
    using subject_text_paired [OF assms] by (rule buffer_round_trip)
  have r: "tokToSubjectFakeToks (fake_token X) = JStr X"
    by (simp add: tokToSubjectFakeToks_def d subject_text_parsed [OF assms])
  define h where "h = js ''Bearer '' @ fake_token X"
  have l: "7 < length h"
    using fake_token_not_empty [of X] by (cases "fake_token X") (simp_all add: h_def)
  have t: "drop 7 h = fake_token X"
    by (simp add: h_def)
  have "contextToSubject rt Alternative2 \<lparr>request = \<lparr>authorization = Some h\<rparr>, subject = su\<rparr> =
      Fulfilled \<lparr>request = \<lparr>authorization = Some h\<rparr>, subject = tokToSubjectFakeToks (drop 7 h)\<rparr>"
    using l by (simp add: context_long)
  with r t show ?thesis
    unfolding h_def by simp
qed

lemma sample_fake_token:
  "fake_token (js ''469863216813'') = js ''eyJzdWJqZWN0IjoiNDY5ODYzMjE2ODEzIn0=''"
  by (simp add: fake_token_def JSON_stringify_subject_def quote_unit_def is_high_def is_low_def
      Buffer_from_utf8_def lone_def utf8_bytes_def base64_char_def)

theorem fake_token_round_trip_witness:
  "fake_token (js ''469863216813'') = js ''eyJzdWJqZWN0IjoiNDY5ODYzMjE2ODEzIn0='' \<and>
   tokToSubjectFakeToks (js ''eyJzdWJqZWN0IjoiNDY5ODYzMjE2ODEzIn0='') = JStr (js ''469863216813'')"
proof -
  have "\<forall>c\<in>set (js ''469863216813''). c < 65536"
    by simp
  from fake_token_round_trip [OF this, of example_runtime JUndefined]
  have "tokToSubjectFakeToks (fake_token (js ''469863216813'')) = JStr (js ''469863216813'')"
    by blast
  then show ?thesis
    unfolding sample_fake_token by (simp only: sample_fake_token simp_thms)
qed

end
